theory Spec2Isabelle
  imports Main "HOL-Library.Word" "HOL-Library.Sublist"
begin

section \<open>Protocol constants (lib/JblProtocol.ts)\<close>

text \<open>
  A Node \<open>Buffer\<close> is a list of bytes. JavaScript numbers that end up in a buffer are
  integers here; \<open>Buffer.from\<close> stores each of them modulo 256. Lengths and indices are
  natural numbers.
\<close>

type_synonym byte = "8 word"

definition STX :: int where "STX = 0x21"
definition ETX :: int where "ETX = 0x0D"
definition REQUEST :: int where "REQUEST = 0xF0"

definition Zone_MASTER :: int where "Zone_MASTER = 0x01"
definition Zone_ZONE2 :: int where "Zone_ZONE2 = 0x02"

text \<open>Of the command codes, the three that the library itself uses.\<close>

definition Cmd_SIMULATE_RC5 :: int where "Cmd_SIMULATE_RC5 = 0x08"
definition Cmd_VOLUME :: int where "Cmd_VOLUME = 0x0D"
definition Cmd_HEARTBEAT :: int where "Cmd_HEARTBEAT = 0x25"

definition AnswerCode_STATUS_UPDATE :: int where "AnswerCode_STATUS_UPDATE = 0x00"
definition AnswerCode_ZONE_INVALID :: int where "AnswerCode_ZONE_INVALID = 0x82"
definition AnswerCode_COMMAND_NOT_RECOGNISED :: int where "AnswerCode_COMMAND_NOT_RECOGNISED = 0x83"
definition AnswerCode_PARAMETER_NOT_RECOGNISED :: int where "AnswerCode_PARAMETER_NOT_RECOGNISED = 0x84"
definition AnswerCode_COMMAND_INVALID :: int where "AnswerCode_COMMAND_INVALID = 0x85"
definition AnswerCode_INVALID_DATA_LENGTH :: int where "AnswerCode_INVALID_DATA_LENGTH = 0x86"

section \<open>Command builder\<close>

definition u8 :: "int \<Rightarrow> byte" where
  "u8 v = word_of_int v"

definition Buffer_from :: "int list \<Rightarrow> byte list" where
  "Buffer_from xs = map u8 xs"

definition buildCommand :: "int \<Rightarrow> int \<Rightarrow> int list \<Rightarrow> byte list" where
  "buildCommand zone cmd data = Buffer_from ([STX, zone, cmd, int (length data)] @ data @ [ETX])"

definition buildQuery :: "int \<Rightarrow> int \<Rightarrow> byte list" where
  "buildQuery zone cmd = buildCommand zone cmd [REQUEST]"

definition buildRC5 :: "int \<Rightarrow> int \<Rightarrow> int \<Rightarrow> byte list" where
  "buildRC5 zone system command = buildCommand zone Cmd_SIMULATE_RC5 [system, command]"

section \<open>Response parser\<close>

text \<open>\<open>Number.prototype.toString(16)\<close>: lower-case digits, no padding, a sign for negatives.\<close>

definition hexDigit :: "nat \<Rightarrow> char" where
  "hexDigit d = ''0123456789abcdef'' ! d"

fun hexNat :: "nat \<Rightarrow> string" where
  "hexNat n = (if n < 16 then [hexDigit n] else hexNat (n div 16) @ [hexDigit (n mod 16)])"

definition toString16 :: "int \<Rightarrow> string" where
  "toString16 n = (if n < 0 then CHR ''-'' # hexNat (nat (- n)) else hexNat (nat n))"

definition errorMessage :: "int \<Rightarrow> string" where
  "errorMessage answer =
     (if answer = AnswerCode_ZONE_INVALID then ''Zone invalid''
      else if answer = AnswerCode_COMMAND_NOT_RECOGNISED then ''Command not recognised''
      else if answer = AnswerCode_PARAMETER_NOT_RECOGNISED then ''Parameter not recognised''
      else if answer = AnswerCode_COMMAND_INVALID then ''Command invalid at this time''
      else if answer = AnswerCode_INVALID_DATA_LENGTH then ''Invalid data length''
      else ''Unknown error (0x'' @ toString16 answer @ '')'')"

record JblResponse =
  zone :: int
  command :: int
  answer :: int
  data :: "byte list"

text \<open>\<open>Buffer.indexOf(value)\<close>: the first index holding the byte, \<open>None\<close> for JavaScript's -1.\<close>

fun indexOf :: "byte list \<Rightarrow> byte \<Rightarrow> nat option" where
  "indexOf [] v = None"
| "indexOf (x # xs) v = (if x = v then Some 0 else map_option Suc (indexOf xs v))"

lemma indexOf_less: "indexOf b v = Some i \<Longrightarrow> i < length b"
  by (induction b arbitrary: i) (auto split: if_splits)

text \<open>
  \<open>parseResponse\<close>: \<open>null\<close> is \<open>None\<close>; \<open>buffer.subarray(k)\<close> is \<open>drop k\<close>. All reads are in
  range by the length checks that precede them.
\<close>

function parseResponse :: "byte list \<Rightarrow> (JblResponse \<times> nat) option" where
  "parseResponse buffer =
     (case indexOf buffer (u8 STX) of
        None \<Rightarrow> None
      | Some startIdx \<Rightarrow>
          if length buffer - startIdx < 6 then None
          else
            let zone = uint (buffer ! (startIdx + 1));
                command = uint (buffer ! (startIdx + 2));
                answer = uint (buffer ! (startIdx + 3));
                dataLength = unat (buffer ! (startIdx + 4));
                totalLength = 5 + dataLength + 1
            in if length buffer - startIdx < totalLength then None
               else if buffer ! (startIdx + totalLength - 1) \<noteq> u8 ETX
                 then parseResponse (drop (startIdx + 1) buffer)
               else
                 let data = take dataLength (drop (startIdx + 5) buffer)
                 in Some (\<lparr>zone = zone, command = command, answer = answer, data = data\<rparr>,
                          startIdx + totalLength))"
  by pat_completeness auto
termination
  by (relation "measure length") (auto dest: indexOf_less)

definition isError :: "JblResponse \<Rightarrow> bool" where
  "isError response = (answer response \<ge> 0x82)"

declare parseResponse.simps [simp del]

lemma parseResponse_bounds:
  "parseResponse b = Some (r, n) \<Longrightarrow> 6 \<le> n \<and> n \<le> length b \<and> length (data r) + 6 \<le> length b"
proof (induction b rule: parseResponse.induct)
  case (1 buffer)
  from "1.prems" obtain i where i: "indexOf buffer (u8 STX) = Some i"
    by (subst (asm) parseResponse.simps) (auto split: option.splits)
  show ?case
  proof (cases "buffer ! (i + (5 + unat (buffer ! (i + 4)) + 1) - 1) \<noteq> u8 ETX")
    case True
    with "1.prems" i have rec: "parseResponse (drop (i + 1) buffer) = Some (r, n)"
      and a: "\<not> length buffer - i < 6"
      and b: "\<not> length buffer - i < 5 + unat (buffer ! (i + 4)) + 1"
      by (subst (asm) parseResponse.simps; simp add: Let_def split: if_splits)+
    from "1.IH"[OF i a refl refl refl refl refl b True rec]
    show ?thesis by (simp; arith)
  next
    case False
    with "1.prems" i show ?thesis
      by (subst (asm) parseResponse.simps) (auto simp: Let_def split: if_splits)
  qed
qed

text \<open>
  A well-formed inbound frame, in the layout the parser reads:
  STX, zone, command, answer, data length, the data, ETX; and the response it stands for.
\<close>

definition inboundFrame :: "byte \<Rightarrow> byte \<Rightarrow> byte \<Rightarrow> byte list \<Rightarrow> byte list" where
  "inboundFrame z c a d = [u8 STX, z, c, a, of_nat (length d)] @ d @ [u8 ETX]"

definition frameOf :: "byte \<Rightarrow> byte \<Rightarrow> byte \<Rightarrow> byte list \<Rightarrow> JblResponse" where
  "frameOf z c a d = \<lparr>zone = uint z, command = uint c, answer = uint a, data = d\<rparr>"

text \<open>
  The start byte at index \<open>i\<close> begins a corrupt frame: the length it declares fits in the
  buffer and the byte at its end position is not ETX.
\<close>

definition corruptAt :: "byte list \<Rightarrow> nat \<Rightarrow> bool" where
  "corruptAt b i \<longleftrightarrow>
     6 + unat (b ! (i + 4)) \<le> length b - i \<and> b ! (i + 5 + unat (b ! (i + 4))) \<noteq> u8 ETX"

text \<open>Every start byte of the prefix \<open>p\<close> of the buffer \<open>p @ f\<close> begins a corrupt frame.\<close>

definition corruptStarts :: "byte list \<Rightarrow> byte list \<Rightarrow> bool" where
  "corruptStarts p f \<longleftrightarrow> (\<forall>i<length p. p ! i = u8 STX \<longrightarrow> corruptAt (p @ f) i)"

section \<open>The connection (lib/JblConnection.ts)\<close>

text \<open>
  The object's fields are a record; every method and every callback is a function from
  the state to the state. Times are milliseconds. What the object does to the outside
  (socket writes and connects, settling a command's promise, emitted events) is appended
  to \<open>trace\<close>, in program order.

  A command's \<open>resolve\<close>, \<open>reject\<close> and \<open>timeout\<close> are created together by one call of
  \<open>enqueue\<close>, so the timer handle names the promise in the trace. \<open>nextTimeout\<close> is
  the next handle \<open>setTimeout\<close> returns and \<open>timers\<close> the command timers still armed,
  each with its handle and the delay it was armed with: \<open>clearTimeout\<close> disarms one, and a
  disarmed timer never fires. How long a delay lasts is the timer system's business: the
  firing of an armed timer is an event. \<open>kicks\<close> counts the armed 50 ms timers that will
  call \<open>processQueue\<close>.

  The promise returned by \<open>connect\<close> and its 10 s timer are left out: that timer only
  destroys the socket and rejects that promise, and the \<open>'close'\<close> that follows is the
  event \<open>SocketClose\<close> below.
\<close>

record ConnectionOptions =
  host :: string
  port :: nat
  reconnectDelay :: nat
  maxReconnectDelay :: nat
  heartbeatInterval :: nat
  commandTimeout :: nat

record QueuedCommand =
  buffer :: "byte list"
  timeout :: nat

text \<open>
  A socket, as far as the connection uses it: \<open>write\<close> returns or throws. The list holds
  the outcome of each coming call, \<open>Some msg\<close> for a throw; past its end every call returns.
\<close>

datatype Socket = Socket (faults: "string option list")

fun socket_write :: "Socket \<Rightarrow> byte list \<Rightarrow> string option \<times> Socket" where
  "socket_write (Socket []) b = (None, Socket [])"
| "socket_write (Socket (f # fs)) b = (f, Socket fs)"

text \<open>
  The reconnect delay is computed in JavaScript numbers, that is doubles. The values that
  occur are whole and not negative, so a finite one is a natural number here (the options
  being whole milliseconds that a double holds exactly). \<open>Math.pow(2, n)\<close> is exact up to
  n = 1023 and \<open>Infinity\<close> beyond; a whole number times a power of two is exact until the
  product reaches 2^1024, where it overflows to \<open>Infinity\<close>; 0 times \<open>Infinity\<close> is \<open>NaN\<close>; and
  \<open>Math.min\<close> returns \<open>NaN\<close> when an argument is \<open>NaN\<close>. \<open>n++\<close> on a counter is exact below
  2^53. From there on \<open>n + 1\<close> is rounded: up to 2^54 the doubles are the even numbers, \<open>n + 1\<close>
  lies half way between two of them and goes to the one whose half is even; beyond 2^54 it
  goes back to \<open>n\<close>. (A counter that starts at 0 stops at 2^53.)
\<close>

datatype jsnum = Finite nat | Infinity | NaN

definition Math_pow2 :: "nat \<Rightarrow> jsnum" where
  "Math_pow2 n = (if n < 1024 then Finite (2 ^ n) else Infinity)"

definition js_times :: "nat \<Rightarrow> jsnum \<Rightarrow> jsnum" where
  "js_times a x =
     (case x of
        Finite v \<Rightarrow> if a * v < 2 ^ 1024 then Finite (a * v) else Infinity
      | Infinity \<Rightarrow> if a = 0 then NaN else Infinity
      | NaN \<Rightarrow> NaN)"

definition Math_min :: "jsnum \<Rightarrow> nat \<Rightarrow> jsnum" where
  "Math_min x m = (case x of Finite v \<Rightarrow> Finite (min v m) | Infinity \<Rightarrow> Finite m | NaN \<Rightarrow> NaN)"

definition js_incr :: "nat \<Rightarrow> nat" where
  "js_incr n =
     (if n < 2 ^ 53 then n + 1
      else if n < 2 ^ 54 \<and> n mod 4 = 2 then n + 2
      else n)"

datatype emitted =
  Connected
| Disconnected
| Error string
| Reconnecting nat jsnum
| Status JblResponse

datatype effect =
  Write "byte list"
| ConnectTo nat string
| Resolve nat JblResponse
| Reject nat string
| Emit emitted

record JblConnection =
  socket :: "Socket option"
  options :: ConnectionOptions
  receiveBuffer :: "byte list"
  commandQueue :: "QueuedCommand list"
  currentCommand :: "QueuedCommand option"
  reconnectTimer :: "jsnum option"
  heartbeatTimer :: "nat option"
  reconnectAttempts :: nat
  intentionalDisconnect :: bool
  connected :: bool
  nextTimeout :: nat
  timers :: "(nat \<times> nat) list"
  kicks :: nat
  trace :: "effect list"

text \<open>The constructor: the defaults, overridden by the options that are given.\<close>

definition constructor ::
  "string \<Rightarrow> nat \<Rightarrow> nat option \<Rightarrow> nat option \<Rightarrow> nat option \<Rightarrow> nat option \<Rightarrow> JblConnection" where
  "constructor h p rd mrd hb ct =
     \<lparr>socket = None,
      options = \<lparr>host = h, port = p,
                 reconnectDelay = (case rd of None \<Rightarrow> 3000 | Some v \<Rightarrow> v),
                 maxReconnectDelay = (case mrd of None \<Rightarrow> 60000 | Some v \<Rightarrow> v),
                 heartbeatInterval = (case hb of None \<Rightarrow> 30000 | Some v \<Rightarrow> v),
                 commandTimeout = (case ct of None \<Rightarrow> 5000 | Some v \<Rightarrow> v)\<rparr>,
      receiveBuffer = [],
      commandQueue = [],
      currentCommand = None,
      reconnectTimer = None,
      heartbeatTimer = None,
      reconnectAttempts = 0,
      intentionalDisconnect = False,
      connected = False,
      nextTimeout = 0,
      timers = [],
      kicks = 0,
      trace = []\<rparr>"

definition emit :: "effect \<Rightarrow> JblConnection \<Rightarrow> JblConnection" where
  "emit x s = s\<lparr>trace := trace s @ [x]\<rparr>"

definition clearTimeout :: "nat \<Rightarrow> JblConnection \<Rightarrow> JblConnection" where
  "clearTimeout t s = s\<lparr>timers := filter (\<lambda>x. fst x \<noteq> t) (timers s)\<rparr>"

text \<open>
  \<open>processQueue\<close>. A write that throws rejects the command with the error and goes on to
  the next one.
\<close>

function processQueue :: "JblConnection \<Rightarrow> JblConnection" where
  "processQueue s =
     (if currentCommand s \<noteq> None then s
      else if length (commandQueue s) = 0 then s
      else if \<not> connected s then s
      else case socket s of
        None \<Rightarrow> s
      | Some sock \<Rightarrow>
          let cur = hd (commandQueue s);
              s1 = s\<lparr>currentCommand := Some cur, commandQueue := tl (commandQueue s)\<rparr>
          in case socket_write sock (buffer cur) of
               (None, sock') \<Rightarrow> emit (Write (buffer cur)) (s1\<lparr>socket := Some sock'\<rparr>)
             | (Some err, sock') \<Rightarrow>
                 processQueue
                   ((emit (Reject (timeout cur) err) (clearTimeout (timeout cur) (s1\<lparr>socket := Some sock'\<rparr>)))
                      \<lparr>currentCommand := None\<rparr>))"
  by pat_completeness auto
termination
  by (relation "measure (\<lambda>s. length (commandQueue s))") (auto simp: emit_def clearTimeout_def)

text \<open>
  \<open>enqueue\<close>: arm the timer with the delay \<open>commandTimeout\<close>, push the command at the tail,
  try to promote.
\<close>

definition enqueue :: "byte list \<Rightarrow> JblConnection \<Rightarrow> JblConnection" where
  "enqueue buf s =
     (let t = nextTimeout s;
          queued = \<lparr>buffer = buf, timeout = t\<rparr>
      in processQueue
           (s\<lparr>nextTimeout := t + 1, timers := timers s @ [(t, commandTimeout (options s))],
              commandQueue := commandQueue s @ [queued]\<rparr>))"

text \<open>\<open>Array.prototype.findIndex\<close>, \<open>None\<close> for -1.\<close>

fun findIndex :: "('a \<Rightarrow> bool) \<Rightarrow> 'a list \<Rightarrow> nat option" where
  "findIndex P [] = None"
| "findIndex P (x # xs) = (if P x then Some 0 else map_option Suc (findIndex P xs))"

text \<open>The callback of the timer armed in \<open>enqueue\<close>, for the handle \<open>t\<close>.\<close>

definition timeoutFired :: "nat \<Rightarrow> JblConnection \<Rightarrow> JblConnection" where
  "timeoutFired t s =
     (let s1 = (case findIndex (\<lambda>q. timeout q = t) (commandQueue s) of
                  None \<Rightarrow> s
                | Some idx \<Rightarrow>
                    s\<lparr>commandQueue := take idx (commandQueue s) @ drop (idx + 1) (commandQueue s)\<rparr>);
          s2 = (if map_option timeout (currentCommand s1) = Some t
                then processQueue (s1\<lparr>currentCommand := None\<rparr>)
                else s1)
      in emit (Reject t ''Command timeout'') s2)"

text \<open>
  The body of the receive loop for one parsed response, after the buffer has been
  advanced.
\<close>

definition handleResponse :: "JblResponse \<Rightarrow> JblConnection \<Rightarrow> JblConnection" where
  "handleResponse response s =
     (case currentCommand s of
        Some cur \<Rightarrow>
          let s1 = clearTimeout (timeout cur) s;
              s2 = (if isError response
                    then emit (Reject (timeout cur) (errorMessage (answer response))) s1
                    else emit (Resolve (timeout cur) response) s1)
          in s2\<lparr>currentCommand := None, kicks := kicks s2 + 1\<rparr>
      | None \<Rightarrow> emit (Emit (Status response)) s)"

declare processQueue.simps [simp del]

lemma handleResponse_receiveBuffer [simp]:
  "receiveBuffer (handleResponse r s) = receiveBuffer s"
  by (simp add: handleResponse_def emit_def clearTimeout_def Let_def split: option.splits)

text \<open>The \<open>while (result)\<close> loop of \<open>onData\<close>.\<close>

function parseLoop :: "JblConnection \<Rightarrow> JblConnection" where
  "parseLoop s =
     (case parseResponse (receiveBuffer s) of
        None \<Rightarrow> s
      | Some (response, bytesConsumed) \<Rightarrow>
          parseLoop (handleResponse response
            (s\<lparr>receiveBuffer := drop bytesConsumed (receiveBuffer s)\<rparr>)))"
  by pat_completeness auto
termination
proof (relation "measure (\<lambda>s. length (receiveBuffer s))")
  show "wf (measure (\<lambda>s. length (receiveBuffer s)))" by simp
next
  fix s :: JblConnection and x2 response bytesConsumed
  assume "parseResponse (receiveBuffer s) = Some x2" and "(response, bytesConsumed) = x2"
  then have "6 \<le> bytesConsumed \<and> bytesConsumed \<le> length (receiveBuffer s)"
    using parseResponse_bounds[of "receiveBuffer s" response bytesConsumed] by simp
  then show "(handleResponse response (s\<lparr>receiveBuffer := drop bytesConsumed (receiveBuffer s)\<rparr>), s)
      \<in> measure (\<lambda>s. length (receiveBuffer s))"
    by (simp add: handleResponse_receiveBuffer) arith
qed

declare parseLoop.simps [simp del]

definition onData :: "byte list \<Rightarrow> JblConnection \<Rightarrow> JblConnection" where
  "onData d s =
     (let s1 = parseLoop (s\<lparr>receiveBuffer := receiveBuffer s @ d\<rparr>)
      in if length (receiveBuffer s1) > 1024 then s1\<lparr>receiveBuffer := []\<rparr> else s1)"

text \<open>
  \<open>heartbeatTimer\<close> and \<open>reconnectTimer\<close> are \<open>Some\<close> while the timer is armed, holding its
  period or delay. (JavaScript keeps the handle of a reconnect timer that has fired; that
  handle is only ever given to \<open>clearTimeout\<close>, which ignores it.)
\<close>

definition stopHeartbeat :: "JblConnection \<Rightarrow> JblConnection" where
  "stopHeartbeat s = (if heartbeatTimer s \<noteq> None then s\<lparr>heartbeatTimer := None\<rparr> else s)"

definition startHeartbeat :: "JblConnection \<Rightarrow> JblConnection" where
  "startHeartbeat s = (stopHeartbeat s)\<lparr>heartbeatTimer := Some (heartbeatInterval (options s))\<rparr>"

definition query :: "int \<Rightarrow> int \<Rightarrow> JblConnection \<Rightarrow> JblConnection" where
  "query zn cmd s = enqueue (buildQuery zn cmd) s"

definition sendCommand :: "int \<Rightarrow> int \<Rightarrow> int list \<Rightarrow> JblConnection \<Rightarrow> JblConnection" where
  "sendCommand zn cmd d s = enqueue (buildCommand zn cmd d) s"

definition sendRC5 :: "int \<Rightarrow> int \<Rightarrow> int \<Rightarrow> JblConnection \<Rightarrow> JblConnection" where
  "sendRC5 zn system cmd s = enqueue (buildRC5 zn system cmd) s"

definition heartbeatFired :: "JblConnection \<Rightarrow> JblConnection" where
  "heartbeatFired s = query Zone_MASTER Cmd_HEARTBEAT s"

definition clearReconnect :: "JblConnection \<Rightarrow> JblConnection" where
  "clearReconnect s = (if reconnectTimer s \<noteq> None then s\<lparr>reconnectTimer := None\<rparr> else s)"

definition scheduleReconnect :: "JblConnection \<Rightarrow> JblConnection" where
  "scheduleReconnect s =
     (let s1 = clearReconnect s;
          delay = Math_min (js_times (reconnectDelay (options s1)) (Math_pow2 (reconnectAttempts s1)))
                           (maxReconnectDelay (options s1));
          s2 = s1\<lparr>reconnectAttempts := js_incr (reconnectAttempts s1)\<rparr>;
          s3 = emit (Emit (Reconnecting (reconnectAttempts s2) delay)) s2
      in s3\<lparr>reconnectTimer := Some delay\<rparr>)"

definition rejectPending :: "string \<Rightarrow> JblConnection \<Rightarrow> JblConnection" where
  "rejectPending reason s =
     (let s1 = (case currentCommand s of
                  Some cur \<Rightarrow>
                    (emit (Reject (timeout cur) reason) (clearTimeout (timeout cur) s))
                      \<lparr>currentCommand := None\<rparr>
                | None \<Rightarrow> s);
          s2 = foldl (\<lambda>st queued. emit (Reject (timeout queued) reason) (clearTimeout (timeout queued) st))
                 s1 (commandQueue s1)
      in s2\<lparr>commandQueue := []\<rparr>)"

text \<open>
  \<open>connect\<close>: a new socket replaces the old one, whose listeners are removed, and is told
  to connect to the configured port and host.
\<close>

definition connect :: "Socket \<Rightarrow> JblConnection \<Rightarrow> JblConnection" where
  "connect sock s =
     emit (ConnectTo (port (options s)) (host (options s)))
       (s\<lparr>intentionalDisconnect := False, socket := Some sock\<rparr>)"

text \<open>The callback of the timer armed in \<open>scheduleReconnect\<close>.\<close>

definition reconnectFired :: "Socket \<Rightarrow> JblConnection \<Rightarrow> JblConnection" where
  "reconnectFired sock s = connect sock s"

text \<open>The socket's \<open>'connect'\<close>, \<open>'error'\<close> and \<open>'close'\<close> listeners.\<close>

definition onSocketConnect :: "JblConnection \<Rightarrow> JblConnection" where
  "onSocketConnect s =
     emit (Emit Connected) (startHeartbeat (s\<lparr>connected := True, reconnectAttempts := 0\<rparr>))"

definition onSocketError :: "string \<Rightarrow> JblConnection \<Rightarrow> JblConnection" where
  "onSocketError err s = emit (Emit (Error err)) s"

definition onSocketClose :: "JblConnection \<Rightarrow> JblConnection" where
  "onSocketClose s =
     (let wasConnected = connected s;
          s1 = rejectPending ''Connection closed'' (stopHeartbeat (s\<lparr>connected := False\<rparr>));
          s2 = (if wasConnected then emit (Emit Disconnected) s1 else s1)
      in if \<not> intentionalDisconnect s2 then scheduleReconnect s2 else s2)"

text \<open>
  \<open>disconnect\<close>, up to the destruction of the socket; the \<open>'close'\<close> that follows runs
  \<open>onSocketClose\<close>.
\<close>

definition disconnect :: "JblConnection \<Rightarrow> JblConnection" where
  "disconnect s =
     (let s1 = rejectPending ''Disconnecting''
                 (clearReconnect (stopHeartbeat (s\<lparr>intentionalDisconnect := True\<rparr>)))
      in case socket s1 of
           None \<Rightarrow> s1\<lparr>connected := False\<rparr>
         | Some sock \<Rightarrow> s1\<lparr>socket := None\<rparr>)"

text \<open>
  What can happen to a connection: calls from the driver, socket events and timers. A
  timer fires only while it is armed.
\<close>

datatype event =
  CallEnqueue "byte list"
| CallConnect Socket
| CallDisconnect
| SocketConnect
| SocketData "byte list"
| SocketError string
| SocketClose
| TimeoutFired nat
| KickFired
| HeartbeatFired
| ReconnectFired Socket

fun step :: "event \<Rightarrow> JblConnection \<Rightarrow> JblConnection" where
  "step (CallEnqueue b) s = enqueue b s"
| "step (CallConnect sock) s = connect sock s"
| "step CallDisconnect s = disconnect s"
| "step SocketConnect s = onSocketConnect s"
| "step (SocketData d) s = onData d s"
| "step (SocketError err) s = onSocketError err s"
| "step SocketClose s = onSocketClose s"
| "step (TimeoutFired t) s =
     (if t \<in> fst ` set (timers s) then timeoutFired t (clearTimeout t s) else s)"
| "step KickFired s =
     (if kicks s > 0 then processQueue (s\<lparr>kicks := kicks s - 1\<rparr>) else s)"
| "step HeartbeatFired s = (if heartbeatTimer s \<noteq> None then heartbeatFired s else s)"
| "step (ReconnectFired sock) s =
     (if reconnectTimer s \<noteq> None then reconnectFired sock (s\<lparr>reconnectTimer := None\<rparr>) else s)"

fun run :: "event list \<Rightarrow> JblConnection \<Rightarrow> JblConnection" where
  "run [] s = s"
| "run (e # es) s = run es (step e s)"

section \<open>Observations on a connection\<close>

text \<open>The timer handles of the commands not yet settled: the one in flight, then the queue.\<close>

definition pendingIds :: "JblConnection \<Rightarrow> nat list" where
  "pendingIds s =
     (case currentCommand s of None \<Rightarrow> [] | Some c \<Rightarrow> [timeout c]) @ map timeout (commandQueue s)"

text \<open>The handle an effect settles (resolves or rejects), if it settles one.\<close>

fun settled :: "effect \<Rightarrow> nat list" where
  "settled (Resolve t r) = [t]"
| "settled (Reject t m) = [t]"
| "settled (Write b) = []"
| "settled (ConnectTo p h) = []"
| "settled (Emit x) = []"

definition settles :: "effect list \<Rightarrow> nat list" where
  "settles tr = concat (map settled tr)"

text \<open>
  The invariant of the command queue: no handle is pending twice, settled twice, or both
  pending and settled; all handles in use are below the next fresh one; and only pending
  commands have an armed timer.
\<close>

definition queue_inv :: "JblConnection \<Rightarrow> bool" where
  "queue_inv s \<longleftrightarrow>
     distinct (pendingIds s @ settles (trace s))
     \<and> (\<forall>t \<in> set (pendingIds s @ settles (trace s)). t < nextTimeout s)
     \<and> fst ` set (timers s) \<subseteq> set (pendingIds s)"

text \<open>
  Every pending command has its timer armed, with the configured \<open>commandTimeout\<close> as the
  delay.
\<close>

definition timer_inv :: "JblConnection \<Rightarrow> bool" where
  "timer_inv s \<longleftrightarrow>
     (\<forall>t \<in> set (pendingIds s). (t, commandTimeout (options s)) \<in> set (timers s))"

text \<open>The fields that no queue operation touches.\<close>

definition same_conf :: "JblConnection \<Rightarrow> JblConnection \<Rightarrow> bool" where
  "same_conf s s' \<longleftrightarrow>
     options s' = options s \<and> reconnectAttempts s' = reconnectAttempts s
     \<and> intentionalDisconnect s' = intentionalDisconnect s"

text \<open>
  The events that bring no data and do not end the connection, the timer with the handle
  \<open>t\<close> not firing: no frame arrives, and nothing else settles the command.
\<close>

fun quiet :: "nat \<Rightarrow> event \<Rightarrow> bool" where
  "quiet t (SocketData d) = False"
| "quiet t SocketClose = False"
| "quiet t CallDisconnect = False"
| "quiet t (TimeoutFired t') = (t' \<noteq> t)"
| "quiet t e = True"

text \<open>The buffers written to the socket, in order.\<close>

fun written :: "effect \<Rightarrow> byte list list" where
  "written (Write b) = [b]"
| "written (ConnectTo p h) = []"
| "written (Resolve t r) = []"
| "written (Reject t m) = []"
| "written (Emit x) = []"

definition writes :: "effect list \<Rightarrow> byte list list" where
  "writes tr = concat (map written tr)"

text \<open>
  The two states \<open>processQueue\<close> passes through after taking the head \<open>q\<close> of the queue:
  promoted, and rejected after a write that threw.
\<close>

definition promoted :: "JblConnection \<Rightarrow> QueuedCommand \<Rightarrow> QueuedCommand list \<Rightarrow> Socket \<Rightarrow> JblConnection" where
  "promoted s q qs sock' = s\<lparr>currentCommand := Some q, commandQueue := qs, socket := Some sock'\<rparr>"

definition writeFailed :: "JblConnection \<Rightarrow> QueuedCommand \<Rightarrow> QueuedCommand list \<Rightarrow> Socket \<Rightarrow> string \<Rightarrow> JblConnection" where
  "writeFailed s q qs sock' err =
     (emit (Reject (timeout q) err) (clearTimeout (timeout q) (promoted s q qs sock')))
       \<lparr>currentCommand := None\<rparr>"

section \<open>The codec: parser\<close>

lemma indexOf_nth: "indexOf b v = Some i \<Longrightarrow> b ! i = v"
  by (induction b arbitrary: i) (auto split: if_splits)

lemma indexOf_None_iff: "indexOf b v = None \<longleftrightarrow> v \<notin> set b"
  by (induction b) auto

lemma indexOf_first: "indexOf b v = Some i \<Longrightarrow> j < i \<Longrightarrow> b ! j \<noteq> v"
proof (induction b arbitrary: i j)
  case Nil
  then show ?case by simp
next
  case (Cons x xs)
  then show ?case by (cases j) (auto split: if_splits)
qed

lemma indexOf_append_notin:
  "v \<notin> set p \<Longrightarrow> indexOf (p @ b) v = map_option (\<lambda>i. length p + i) (indexOf b v)"
proof (induction p)
  case Nil
  then show ?case by (cases "indexOf b v") simp_all
next
  case (Cons a p)
  then show ?case by (cases "indexOf b v") auto
qed

lemma unat_len_byte: "n \<le> 255 \<Longrightarrow> unat (of_nat n :: byte) = n"
  by (simp add: unsigned_of_nat take_bit_nat_eq_self)

lemma parse_at_first:
  assumes i: "indexOf b (u8 STX) = Some i"
    and fr: "drop i b = inboundFrame z c a d @ rest"
    and len: "length d \<le> 255"
  shows "parseResponse b = Some (frameOf z c a d, i + 6 + length d)"
proof -
  have il: "i < length b" using i by (rule indexOf_less)
  let ?f = "inboundFrame z c a d @ rest"
  have nth: "\<And>k. k < length ?f \<Longrightarrow> b ! (i + k) = ?f ! k"
    using fr il by (metis nth_drop less_imp_le_nat)
  have lf: "length ?f = 6 + length d + length rest" by (simp add: inboundFrame_def)
  have lb: "length b - i = 6 + length d + length rest"
    using fr lf by (metis length_drop)
  have b1: "b ! (i + 1) = z" using nth[of 1] lf by (simp add: inboundFrame_def)
  have b2: "b ! (i + 2) = c" using nth[of 2] lf by (simp add: inboundFrame_def)
  have b3: "b ! (i + 3) = a" using nth[of 3] lf by (simp add: inboundFrame_def)
  have b4: "b ! (i + 4) = of_nat (length d)" using nth[of 4] lf by (simp add: inboundFrame_def)
  have dl: "unat (b ! (i + 4)) = length d" using b4 len by (simp add: unat_len_byte)
  have "b ! (i + (5 + length d)) = u8 ETX"
    using nth[of "5 + length d"] lf by (simp add: inboundFrame_def nth_append)
  then have e: "b ! (5 + (i + length d)) = u8 ETX"
    by (simp add: ac_simps)
  have "drop (i + 5) b = drop 5 (drop i b)" by (simp add: add.commute)
  also have "\<dots> = d @ u8 ETX # rest" by (simp add: fr inboundFrame_def)
  finally have dat: "take (length d) (drop (i + 5) b) = d" by simp
  show ?thesis
    using lb dl b1 b2 b3 e dat
    by (subst parseResponse.simps) (simp add: i frameOf_def Let_def)
qed

lemma parse_skip:
  assumes i: "indexOf b (u8 STX) = Some i" and c: "corruptAt b i"
  shows "parseResponse b = parseResponse (drop (i + 1) b)"
proof -
  from c have "b ! (5 + (i + unat (b ! (i + 4)))) \<noteq> u8 ETX"
    by (simp add: corruptAt_def ac_simps)
  moreover from c have "6 + unat (b ! (i + 4)) \<le> length b - i"
    by (simp add: corruptAt_def)
  ultimately show ?thesis
    by (subst parseResponse.simps) (simp add: i Let_def)
qed

lemma indexOf_append_in: "indexOf p v = Some i \<Longrightarrow> indexOf (p @ b) v = Some i"
  by (induction p arbitrary: i) (auto split: if_splits)

lemma corruptAt_drop:
  assumes "corruptAt b (k + j)" "k \<le> length b"
  shows "corruptAt (drop k b) j"
  using assms by (simp add: corruptAt_def add.assoc)

lemma corruptStarts_drop:
  assumes "corruptStarts p f" "k \<le> length p"
  shows "corruptStarts (drop k p) f"
  unfolding corruptStarts_def
proof (intro allI impI)
  fix j assume j: "j < length (drop k p)" and s: "drop k p ! j = u8 STX"
  from j have kj: "k + j < length p" by simp
  with s assms(2) have "p ! (k + j) = u8 STX" by simp
  with assms(1) kj have "corruptAt (p @ f) (k + j)" by (simp add: corruptStarts_def)
  then have "corruptAt (drop k (p @ f)) j" using assms(2) by (intro corruptAt_drop) simp_all
  then show "corruptAt (drop k p @ f) j" using assms(2) by simp
qed

lemma parse_after_corrupt:
  assumes len: "length d \<le> 255"
  shows "corruptStarts p (inboundFrame z c a d)
    \<Longrightarrow> \<exists>n. parseResponse (p @ inboundFrame z c a d) = Some (frameOf z c a d, n)"
proof (induction p rule: length_induct)
  case (1 p)
  let ?f = "inboundFrame z c a d"
  show ?case
  proof (cases "indexOf p (u8 STX)")
    case None
    then have notin: "u8 STX \<notin> set p" by (simp add: indexOf_None_iff)
    have "indexOf ?f (u8 STX) = Some 0" by (simp add: inboundFrame_def)
    then have "indexOf (p @ ?f) (u8 STX) = Some (length p)"
      using notin by (simp add: indexOf_append_notin)
    from parse_at_first[OF this, of z c a d "[]"] len show ?thesis by simp
  next
    case (Some i)
    then have il: "i < length p" and pi: "p ! i = u8 STX"
      by (auto dest: indexOf_less indexOf_nth)
    have ib: "indexOf (p @ ?f) (u8 STX) = Some i" using Some by (rule indexOf_append_in)
    have "corruptAt (p @ ?f) i" using "1.prems" il pi by (simp add: corruptStarts_def)
    from parse_skip[OF ib this] il
    have eq: "parseResponse (p @ ?f) = parseResponse (drop (i + 1) p @ ?f)" by simp
    have "corruptStarts (drop (i + 1) p) ?f" using "1.prems" il by (intro corruptStarts_drop) simp_all
    moreover have "length (drop (i + 1) p) < length p" using il by simp
    ultimately show ?thesis using "1.IH" eq by metis
  qed
qed

lemma parse_no_start_prefix:
  assumes len: "length d \<le> 255" and notin: "u8 STX \<notin> set p"
  shows "parseResponse (p @ inboundFrame z c a d) = Some (frameOf z c a d, length p + (6 + length d))"
proof -
  have "indexOf (inboundFrame z c a d) (u8 STX) = Some 0" by (simp add: inboundFrame_def)
  then have "indexOf (p @ inboundFrame z c a d) (u8 STX) = Some (length p)"
    using notin by (simp add: indexOf_append_notin)
  from parse_at_first[OF this, of z c a d "[]"] len show ?thesis by (simp add: add.assoc)
qed

lemma parse_truncated:
  assumes "indexOf b (u8 STX) = Some i" and "length b - i < 5 + unat (b ! (i + 4)) + 1"
  shows "parseResponse b = None"
  using assms by (subst parseResponse.simps) (simp add: Let_def)



text \<open>
  C1 (as amended). For a buffer made of a prefix and one well-formed frame: when the
  prefix holds no start byte, \<open>parseResponse\<close> returns the frame and \<open>bytesConsumed\<close> is
  the length of the prefix plus the length of the frame; when every start byte of the
  prefix begins a corrupt frame (one that fits in the buffer and whose end-marker check
  fails), \<open>parseResponse\<close> still returns the frame.
\<close>

theorem parseResponse_frame_after_prefix:
  assumes "length d \<le> 255"
  shows "(u8 STX \<notin> set p \<longrightarrow>
            parseResponse (p @ inboundFrame z c a d)
              = Some (frameOf z c a d, length p + length (inboundFrame z c a d)))
       \<and> (corruptStarts p (inboundFrame z c a d) \<longrightarrow>
            (\<exists>n. parseResponse (p @ inboundFrame z c a d) = Some (frameOf z c a d, n)))"
proof (intro conjI impI)
  assume "u8 STX \<notin> set p"
  from parse_no_start_prefix[OF assms this, of z c a]
  show "parseResponse (p @ inboundFrame z c a d)
          = Some (frameOf z c a d, length p + length (inboundFrame z c a d))"
    by (simp add: inboundFrame_def)
next
  assume "corruptStarts p (inboundFrame z c a d)"
  then show "\<exists>n. parseResponse (p @ inboundFrame z c a d) = Some (frameOf z c a d, n)"
    by (rule parse_after_corrupt[OF assms])
qed

theorem parseResponse_frame_after_prefix_witness:
  "corruptStarts [0x21, 0, 0, 0, 0, 0] (inboundFrame 1 0x0D 0 [0x32])
   \<and> (\<exists>n. parseResponse ([0x21, 0, 0, 0, 0, 0] @ inboundFrame 1 0x0D 0 [0x32])
            = Some (frameOf 1 0x0D 0 [0x32], n))
   \<and> u8 STX \<notin> set [0x00, 0x07]
   \<and> parseResponse ([0x00, 0x07] @ inboundFrame 1 0x0D 0 [0x32])
       = Some (frameOf 1 0x0D 0 [0x32], 9)"
proof -
  have len: "length [0x32 :: byte] \<le> 255" by simp
  have cs: "corruptStarts [0x21, 0, 0, 0, 0, 0] (inboundFrame 1 0x0D 0 [0x32])"
    by (simp add: corruptStarts_def corruptAt_def inboundFrame_def u8_def STX_def ETX_def
        All_less_Suc nth_Cons')
  have ns: "u8 STX \<notin> set [0x00, 0x07]" by (simp add: u8_def STX_def)
  from parseResponse_frame_after_prefix[OF len, of "[0x21, 0, 0, 0, 0, 0]" 1 "0x0D" 0] cs
  have a: "\<exists>n. parseResponse ([0x21, 0, 0, 0, 0, 0] @ inboundFrame 1 0x0D 0 [0x32])
            = Some (frameOf 1 0x0D 0 [0x32], n)" by blast
  from parseResponse_frame_after_prefix[OF len, of "[0x00, 0x07]" 1 "0x0D" 0] ns
  have b: "parseResponse ([0x00, 0x07] @ inboundFrame 1 0x0D 0 [0x32])
       = Some (frameOf 1 0x0D 0 [0x32], 9)" by (simp add: inboundFrame_def)
  from cs a ns b show ?thesis by blast
qed

text \<open>
  The claim as stated fails twice. After a corrupt frame of six bytes, the seven-byte
  frame is returned with \<open>bytesConsumed = 12\<close>, counted from the byte after the skipped
  start byte, not 13 from the front of the buffer. And a start byte in the prefix whose
  length byte (0xFF) declares more than the buffer holds makes the result \<open>None\<close>.
\<close>

theorem parseResponse_prefix_counterexample:
  "parseResponse ([0x21, 0, 0, 0, 0, 0] @ inboundFrame 1 0x0D 0 [0x32])
     = Some (frameOf 1 0x0D 0 [0x32], 12)
   \<and> (12 :: nat) \<noteq> length [0x21 :: byte, 0, 0, 0, 0, 0] + length (inboundFrame 1 0x0D 0 [0x32])
   \<and> parseResponse ([0x21, 0, 0, 0, 0xFF] @ inboundFrame 1 0x0D 0 [0x32]) = None"
  by (simp add: inboundFrame_def frameOf_def u8_def STX_def ETX_def Let_def
      parseResponse.simps[of "[0x21, 0, 0, 0, 0, 0, 0x21, 0x01, 0x0D, 0x00, 0x01, 0x32, 0x0D]"]
      parseResponse.simps[of "[0, 0, 0, 0, 0, 0x21, 0x01, 0x0D, 0x00, 0x01, 0x32, 0x0D]"]
      parseResponse.simps[of "[0x21, 0, 0, 0, 0xFF, 0x21, 0x01, 0x0D, 0x00, 0x01, 0x32, 0x0D]"])




text \<open>
  C7. When the first start byte of a buffer begins a frame whose declared total length
  (5 + data length + 1) exceeds the bytes available from it, \<open>parseResponse\<close> returns
  \<open>None\<close>, and the receive loop run on that buffer changes nothing: no byte is consumed.
\<close>

theorem parseResponse_truncated_frame:
  assumes "indexOf b (u8 STX) = Some i"
    and "length b - i < 5 + unat (b ! (i + 4)) + 1"
  shows "parseResponse b = None
       \<and> parseLoop (s\<lparr>receiveBuffer := b\<rparr>) = s\<lparr>receiveBuffer := b\<rparr>"
proof -
  have "parseResponse b = None" using assms by (rule parse_truncated)
  then show ?thesis by (subst parseLoop.simps) simp
qed

theorem parseResponse_truncated_frame_witness:
  "indexOf [0x00, 0x21, 0x01, 0x0D, 0x00, 0x05, 0x32] (u8 STX) = Some 1
   \<and> length [0x00 :: byte, 0x21, 0x01, 0x0D, 0x00, 0x05, 0x32] - 1
         < 5 + unat ([0x00 :: byte, 0x21, 0x01, 0x0D, 0x00, 0x05, 0x32] ! (1 + 4)) + 1
   \<and> parseResponse [0x00, 0x21, 0x01, 0x0D, 0x00, 0x05, 0x32] = None
   \<and> parseLoop ((constructor [] 0 None None None None)
          \<lparr>receiveBuffer := [0x00, 0x21, 0x01, 0x0D, 0x00, 0x05, 0x32]\<rparr>)
       = (constructor [] 0 None None None None)
          \<lparr>receiveBuffer := [0x00, 0x21, 0x01, 0x0D, 0x00, 0x05, 0x32]\<rparr>"
proof -
  have i: "indexOf [0x00, 0x21, 0x01, 0x0D, 0x00, 0x05, 0x32] (u8 STX) = Some 1"
    by (simp add: u8_def STX_def)
  have l: "length [0x00 :: byte, 0x21, 0x01, 0x0D, 0x00, 0x05, 0x32] - 1
         < 5 + unat ([0x00 :: byte, 0x21, 0x01, 0x0D, 0x00, 0x05, 0x32] ! (1 + 4)) + 1"
    by simp
  from parseResponse_truncated_frame[OF i l] i l show ?thesis by blast
qed

section \<open>The codec: builders\<close>

text \<open>
  C9. \<open>buildQuery\<close> produces the bytes of \<open>buildCommand\<close> with the one-byte payload
  \<open>REQUEST\<close> (0xF0), for every zone and command; for zone MASTER and command VOLUME these
  are the bytes 0x21, 0x01, 0x0D, 0x01, 0xF0, 0x0D.
\<close>

theorem buildQuery_is_buildCommand_REQUEST:
  "buildQuery z c = buildCommand z c [0xF0]
   \<and> buildQuery z c = [0x21, u8 z, u8 c, 0x01, 0xF0, 0x0D]
   \<and> buildQuery Zone_MASTER Cmd_VOLUME = [0x21, 0x01, 0x0D, 0x01, 0xF0, 0x0D]"
  by (simp add: buildQuery_def buildCommand_def Buffer_from_def REQUEST_def STX_def ETX_def
      u8_def Zone_MASTER_def Cmd_VOLUME_def)

section \<open>The command queue: invariant\<close>

lemma settles_append [simp]: "settles (xs @ ys) = settles xs @ settles ys"
  by (simp add: settles_def)

lemma settles_Nil [simp]: "settles [] = []"
  by (simp add: settles_def)

lemma settles_Cons [simp]: "settles (x # xs) = settled x @ settles xs"
  by (simp add: settles_def)

lemma processQueue_rule:
  assumes stay: "\<And>s. R s s"
    and promote: "\<And>s q qs sock sock'.
      \<lbrakk>currentCommand s = None; commandQueue s = q # qs; connected s; socket s = Some sock;
       socket_write sock (buffer q) = (None, sock')\<rbrakk>
      \<Longrightarrow> R s (emit (Write (buffer q)) (promoted s q qs sock'))"
    and fail: "\<And>s q qs sock sock' err s'.
      \<lbrakk>currentCommand s = None; commandQueue s = q # qs; connected s; socket s = Some sock;
       socket_write sock (buffer q) = (Some err, sock'); R (writeFailed s q qs sock' err) s'\<rbrakk>
      \<Longrightarrow> R s s'"
  shows "R s (processQueue s)"
proof (induction "commandQueue s" arbitrary: s)
  case Nil
  then have "processQueue s = s" by (subst processQueue.simps) simp
  then show ?case by (simp add: stay)
next
  case (Cons q qs)
  note q = Cons.hyps(2)[symmetric]
  show ?case
  proof (cases "currentCommand s \<noteq> None \<or> \<not> connected s \<or> socket s = None")
    case True
    then have "processQueue s = s" by (subst processQueue.simps) auto
    then show ?thesis by (simp add: stay)
  next
    case False
    then obtain sock where c: "currentCommand s = None" "connected s" and so: "socket s = Some sock"
      by auto
    obtain f sock' where w: "socket_write sock (buffer q) = (f, sock')"
      by (cases "socket_write sock (buffer q)")
    show ?thesis
    proof (cases f)
      case None
      have "processQueue s = emit (Write (buffer q)) (promoted s q qs sock')"
        by (subst processQueue.simps) (simp add: c so q w None Let_def promoted_def)
      then show ?thesis using promote[OF c(1) q c(2) so w[unfolded None]] by simp
    next
      case (Some err)
      have eq: "processQueue s = processQueue (writeFailed s q qs sock' err)"
        by (subst processQueue.simps) (simp add: c so q w Some Let_def promoted_def writeFailed_def)
      have "qs = commandQueue (writeFailed s q qs sock' err)"
        by (simp add: writeFailed_def promoted_def emit_def clearTimeout_def)
      from Cons.hyps(1)[OF this]
      have "R (writeFailed s q qs sock' err) (processQueue (writeFailed s q qs sock' err))" .
      from fail[OF c(1) q c(2) so w[unfolded Some] this] show ?thesis by (simp add: eq)
    qed
  qed
qed

lemma processQueue_inv: "queue_inv s \<Longrightarrow> queue_inv (processQueue s)"
proof -
  have "queue_inv s \<longrightarrow> queue_inv (processQueue s)"
  proof (rule processQueue_rule[where R = "\<lambda>s s'. queue_inv s \<longrightarrow> queue_inv s'"])
    fix s show "queue_inv s \<longrightarrow> queue_inv s" by simp
  next
    fix s :: JblConnection and q qs sock sock'
    assume "currentCommand s = None" "commandQueue s = q # qs"
    then show "queue_inv s \<longrightarrow> queue_inv (emit (Write (buffer q)) (promoted s q qs sock'))"
      by (simp add: queue_inv_def pendingIds_def emit_def promoted_def)
  next
    fix s :: JblConnection and q qs sock sock' err s'
    assume c: "currentCommand s = None" "commandQueue s = q # qs"
      and r: "queue_inv (writeFailed s q qs sock' err) \<longrightarrow> queue_inv s'"
    have "queue_inv s \<Longrightarrow> queue_inv (writeFailed s q qs sock' err)"
      using c by (auto simp: queue_inv_def pendingIds_def emit_def clearTimeout_def promoted_def writeFailed_def)
    with r show "queue_inv s \<longrightarrow> queue_inv s'" by blast
  qed
  then show "queue_inv s \<Longrightarrow> queue_inv (processQueue s)" by blast
qed

lemma processQueue_nextTimeout [simp]: "nextTimeout (processQueue s) = nextTimeout s"
  by (rule processQueue_rule[where R = "\<lambda>s s'. nextTimeout s' = nextTimeout s"])
     (simp_all add: emit_def promoted_def writeFailed_def clearTimeout_def)

lemma processQueue_trace: "prefix (trace s) (trace (processQueue s))"
proof (rule processQueue_rule[where R = "\<lambda>s s'. prefix (trace s) (trace s')"])
  fix s :: JblConnection and q qs sock sock' err s'
  assume "prefix (trace (writeFailed s q qs sock' err)) (trace s')"
  moreover have "prefix (trace s) (trace (writeFailed s q qs sock' err))"
    by (simp add: writeFailed_def emit_def clearTimeout_def promoted_def)
  ultimately show "prefix (trace s) (trace s')" by (rule prefix_order.trans[rotated])
qed (simp_all add: emit_def promoted_def)

lemma processQueue_fresh:
  "t \<notin> set (pendingIds s @ settles (trace s))
   \<Longrightarrow> t \<notin> set (pendingIds (processQueue s) @ settles (trace (processQueue s)))"
proof -
  let ?F = "\<lambda>s. t \<notin> set (pendingIds s @ settles (trace s))"
  have "?F s \<longrightarrow> ?F (processQueue s)"
  proof (rule processQueue_rule[where R = "\<lambda>s s'. ?F s \<longrightarrow> ?F s'"])
    fix s :: JblConnection and q qs sock sock'
    assume "currentCommand s = None" "commandQueue s = q # qs"
    then show "?F s \<longrightarrow> ?F (emit (Write (buffer q)) (promoted s q qs sock'))"
      by (simp add: pendingIds_def emit_def promoted_def)
  next
    fix s :: JblConnection and q qs sock sock' err s'
    assume c: "currentCommand s = None" "commandQueue s = q # qs"
      and r: "?F (writeFailed s q qs sock' err) \<longrightarrow> ?F s'"
    have "?F s \<Longrightarrow> ?F (writeFailed s q qs sock' err)"
      using c by (auto simp: pendingIds_def emit_def clearTimeout_def promoted_def writeFailed_def)
    with r show "?F s \<longrightarrow> ?F s'" by blast
  qed simp
  then show "?F s \<Longrightarrow> ?F (processQueue s)" by blast
qed

lemma parseLoop_rule:
  assumes stay: "\<And>s. parseResponse (receiveBuffer s) = None \<Longrightarrow> R s s"
    and iter: "\<And>s r n s'.
      \<lbrakk>parseResponse (receiveBuffer s) = Some (r, n);
       R (handleResponse r (s\<lparr>receiveBuffer := drop n (receiveBuffer s)\<rparr>)) s'\<rbrakk> \<Longrightarrow> R s s'"
  shows "R s (parseLoop s)"
proof (induction s rule: parseLoop.induct)
  case (1 s)
  show ?case
  proof (cases "parseResponse (receiveBuffer s)")
    case None
    then have "parseLoop s = s" by (subst parseLoop.simps) simp
    then show ?thesis using stay[OF None] by simp
  next
    case (Some x)
    obtain r n where x: "x = (r, n)" by (cases x)
    have eq: "parseLoop s = parseLoop (handleResponse r (s\<lparr>receiveBuffer := drop n (receiveBuffer s)\<rparr>))"
      by (subst parseLoop.simps) (simp add: Some x)
    from "1.IH"[OF Some x[symmetric]] iter[OF Some[unfolded x]] show ?thesis
      by (simp add: eq)
  qed
qed

lemma handleResponse_inv: "queue_inv s \<Longrightarrow> queue_inv (handleResponse r s)"
  by (cases "currentCommand s")
     (auto simp: handleResponse_def queue_inv_def pendingIds_def emit_def clearTimeout_def Let_def)

lemma handleResponse_trace: "prefix (trace s) (trace (handleResponse r s))"
  by (cases "currentCommand s") (simp_all add: handleResponse_def emit_def clearTimeout_def Let_def)

lemma inv_receiveBuffer [simp]: "queue_inv (s\<lparr>receiveBuffer := b\<rparr>) = queue_inv s"
  by (simp add: queue_inv_def pendingIds_def)

lemma parseLoop_inv: "queue_inv s \<Longrightarrow> queue_inv (parseLoop s)"
proof -
  have "queue_inv s \<longrightarrow> queue_inv (parseLoop s)"
    by (rule parseLoop_rule[where R = "\<lambda>s s'. queue_inv s \<longrightarrow> queue_inv s'"])
       (simp_all add: handleResponse_inv)
  then show "queue_inv s \<Longrightarrow> queue_inv (parseLoop s)" by blast
qed

lemma parseLoop_trace: "prefix (trace s) (trace (parseLoop s))"
proof (rule parseLoop_rule[where R = "\<lambda>s s'. prefix (trace s) (trace s')"])
  fix s :: JblConnection and r n s'
  assume "prefix (trace (handleResponse r (s\<lparr>receiveBuffer := drop n (receiveBuffer s)\<rparr>))) (trace s')"
  moreover have "prefix (trace s) (trace (handleResponse r (s\<lparr>receiveBuffer := drop n (receiveBuffer s)\<rparr>)))"
    using handleResponse_trace[of "s\<lparr>receiveBuffer := drop n (receiveBuffer s)\<rparr>" r] by simp
  ultimately show "prefix (trace s) (trace s')" by (rule prefix_order.trans[rotated])
qed simp

lemma foldl_reject:
  "trace (foldl (\<lambda>st queued. emit (Reject (timeout queued) reason) (clearTimeout (timeout queued) st)) s qs)
     = trace s @ map (\<lambda>q. Reject (timeout q) reason) qs
   \<and> fst ` set (timers (foldl (\<lambda>st queued. emit (Reject (timeout queued) reason) (clearTimeout (timeout queued) st)) s qs))
     = fst ` set (timers s) - set (map timeout qs)
   \<and> currentCommand (foldl (\<lambda>st queued. emit (Reject (timeout queued) reason) (clearTimeout (timeout queued) st)) s qs)
     = currentCommand s
   \<and> nextTimeout (foldl (\<lambda>st queued. emit (Reject (timeout queued) reason) (clearTimeout (timeout queued) st)) s qs)
     = nextTimeout s"
proof (induction qs arbitrary: s)
  case Nil
  then show ?case by simp
next
  case (Cons q qs)
  show ?case
    by (simp add: Cons.IH) (auto simp: emit_def clearTimeout_def)
qed

lemma rejectPending_fields:
  "trace (rejectPending reason s) = trace s @ map (\<lambda>t. Reject t reason) (pendingIds s)"
  "currentCommand (rejectPending reason s) = None"
  "commandQueue (rejectPending reason s) = []"
  "fst ` set (timers (rejectPending reason s)) = fst ` set (timers s) - set (pendingIds s)"
  "nextTimeout (rejectPending reason s) = nextTimeout s"
proof -
  show "trace (rejectPending reason s) = trace s @ map (\<lambda>t. Reject t reason) (pendingIds s)"
    by (cases "currentCommand s")
       (simp_all add: rejectPending_def foldl_reject pendingIds_def comp_def,
        (simp_all add: emit_def clearTimeout_def)?)
  show "currentCommand (rejectPending reason s) = None"
    by (cases "currentCommand s")
       (simp_all add: rejectPending_def foldl_reject pendingIds_def comp_def,
        (simp_all add: emit_def clearTimeout_def)?)
  show "commandQueue (rejectPending reason s) = []"
    by (simp add: rejectPending_def Let_def)
  show "fst ` set (timers (rejectPending reason s)) = fst ` set (timers s) - set (pendingIds s)"
    by (cases "currentCommand s")
       (simp_all add: rejectPending_def foldl_reject pendingIds_def comp_def,
        (auto simp: emit_def clearTimeout_def)?)
  show "nextTimeout (rejectPending reason s) = nextTimeout s"
    by (cases "currentCommand s")
       (simp_all add: rejectPending_def foldl_reject pendingIds_def comp_def,
        (simp_all add: emit_def clearTimeout_def)?)
qed

lemma settles_map_Reject [simp]: "settles (map (\<lambda>t. Reject t reason) ts) = ts"
  by (induction ts) simp_all

lemma pendingIds_rejectPending [simp]: "pendingIds (rejectPending reason s) = []"
  by (simp add: pendingIds_def rejectPending_fields)

lemma rejectPending_inv: "queue_inv s \<Longrightarrow> queue_inv (rejectPending reason s)"
  by (auto simp: queue_inv_def rejectPending_fields(1,4,5))

lemma inv_emit_other:
  "settled x = [] \<Longrightarrow> queue_inv (emit x s) = queue_inv s"
  by (simp add: queue_inv_def pendingIds_def emit_def)

lemma inv_emit_settle:
  assumes "queue_inv s" "settled x = [t]" "t \<notin> set (pendingIds s @ settles (trace s))" "t < nextTimeout s"
  shows "queue_inv (emit x s)"
  using assms by (auto simp: queue_inv_def pendingIds_def emit_def)

lemma inv_less: "queue_inv s \<Longrightarrow> t \<in> set (pendingIds s) \<or> t \<in> set (settles (trace s)) \<Longrightarrow> t < nextTimeout s"
  by (auto simp: queue_inv_def)

lemma enqueue_inv: "queue_inv s \<Longrightarrow> queue_inv (enqueue b s)"
proof -
  assume i: "queue_inv s"
  let ?s1 = "s\<lparr>nextTimeout := nextTimeout s + 1,
              timers := timers s @ [(nextTimeout s, commandTimeout (options s))],
              commandQueue := commandQueue s @ [\<lparr>buffer = b, timeout = nextTimeout s\<rparr>]\<rparr>"
  have p: "pendingIds ?s1 = pendingIds s @ [nextTimeout s]"
    by (simp add: pendingIds_def)
  have fresh: "nextTimeout s \<notin> set (pendingIds s)" "nextTimeout s \<notin> set (settles (trace s))"
    using inv_less[OF i, of "nextTimeout s"] by auto
  have "distinct (pendingIds ?s1 @ settles (trace ?s1))"
    using i fresh unfolding p by (simp add: queue_inv_def)
  moreover have "\<forall>t \<in> set (pendingIds ?s1 @ settles (trace ?s1)). t < nextTimeout ?s1"
    using i unfolding p by (auto simp: queue_inv_def less_Suc_eq)
  moreover have "fst ` set (timers ?s1) \<subseteq> set (pendingIds ?s1)"
    using i unfolding p by (auto simp: queue_inv_def)
  ultimately have "queue_inv ?s1" unfolding queue_inv_def by blast
  then show ?thesis by (simp add: enqueue_def Let_def processQueue_inv)
qed

lemma splice_remove1:
  "map timeout (case findIndex (\<lambda>q. timeout q = t) qs of
                  None \<Rightarrow> qs
                | Some idx \<Rightarrow> take idx qs @ drop (idx + 1) qs)
     = remove1 t (map timeout qs)"
proof (induction qs)
  case Nil
  then show ?case by simp
next
  case (Cons q qs)
  show ?case
  proof (cases "timeout q = t")
    case True
    then show ?thesis by simp
  next
    case False
    then show ?thesis using Cons.IH
      by (cases "findIndex (\<lambda>q. timeout q = t) qs") simp_all
  qed
qed

lemma timeoutFired_inv:
  assumes i: "queue_inv s" and t: "t \<in> fst ` set (timers s)"
  shows "queue_inv (timeoutFired t (clearTimeout t s))"
proof -
  define s0 where "s0 = clearTimeout t s"
  define s1 where "s1 = (case findIndex (\<lambda>q. timeout q = t) (commandQueue s0) of
               None \<Rightarrow> s0
             | Some idx \<Rightarrow> s0\<lparr>commandQueue := take idx (commandQueue s0) @ drop (idx + 1) (commandQueue s0)\<rparr>)"
  define B where "B \<longleftrightarrow> map_option timeout (currentCommand s1) = Some t"
  define u where "u = (if B then s1\<lparr>currentCommand := None\<rparr> else s1)"
  define v where "v = (if B then processQueue u else u)"
  have s0: "commandQueue s0 = commandQueue s" "currentCommand s0 = currentCommand s"
    "trace s0 = trace s" "nextTimeout s0 = nextTimeout s" "timers s0 = filter (\<lambda>x. fst x \<noteq> t) (timers s)"
    by (simp_all add: s0_def clearTimeout_def)
  have "timeoutFired t s0
      = emit (Reject t ''Command timeout'') (if B then processQueue (s1\<lparr>currentCommand := None\<rparr>) else s1)"
    by (simp only: timeoutFired_def Let_def B_def s1_def)
  also have "(if B then processQueue (s1\<lparr>currentCommand := None\<rparr>) else s1) = v"
    by (simp add: v_def u_def)
  finally have tf: "timeoutFired t (clearTimeout t s) = emit (Reject t ''Command timeout'') v"
    by (simp only: s0_def)
  have q1: "map timeout (commandQueue s1) = remove1 t (map timeout (commandQueue s))"
    using splice_remove1[where t = t and qs = "commandQueue s"]
    by (cases "findIndex (\<lambda>q. timeout q = t) (commandQueue s)") (simp_all add: s1_def s0)
  have c1: "currentCommand s1 = currentCommand s"
    by (cases "findIndex (\<lambda>q. timeout q = t) (commandQueue s)") (simp_all add: s1_def s0)
  have o1: "trace s1 = trace s \<and> nextTimeout s1 = nextTimeout s \<and> timers s1 = filter (\<lambda>x. fst x \<noteq> t) (timers s)"
    by (cases "findIndex (\<lambda>q. timeout q = t) (commandQueue s)") (simp_all add: s1_def s0)
  have pu: "pendingIds u = (case currentCommand s of None \<Rightarrow> []
              | Some c \<Rightarrow> if timeout c = t then [] else [timeout c]) @ remove1 t (map timeout (commandQueue s))"
    using q1 c1 by (cases "currentCommand s") (auto simp: pendingIds_def u_def B_def)
  have ou: "trace u = trace s \<and> nextTimeout u = nextTimeout s \<and> timers u = filter (\<lambda>x. fst x \<noteq> t) (timers s)"
    using o1 by (simp add: u_def)
  have tp: "t \<in> set (pendingIds s)" using i t by (auto simp: queue_inv_def)
  have dist: "distinct (pendingIds s)" using i by (simp add: queue_inv_def)
  have su: "set (pendingIds u) = set (pendingIds s) - {t}"
    using dist unfolding pu by (cases "currentCommand s") (auto simp: pendingIds_def)
  have du: "distinct (pendingIds u)"
    using dist unfolding pu by (cases "currentCommand s") (auto simp: pendingIds_def)
  have iu: "queue_inv u"
    unfolding queue_inv_def using i su du ou by (auto simp: queue_inv_def)
  have fu: "t \<notin> set (pendingIds u @ settles (trace u))"
    using su ou i tp by (auto simp: queue_inv_def)
  have tn: "t < nextTimeout s" using i tp by (auto simp: queue_inv_def)
  have a: "queue_inv v" using iu by (simp add: v_def processQueue_inv)
  have b: "t \<notin> set (pendingIds v @ settles (trace v))"
    using fu processQueue_fresh[of t u] by (cases B) (simp_all add: v_def)
  have c: "nextTimeout v = nextTimeout s" using ou by (simp add: v_def)
  have "queue_inv (emit (Reject t ''Command timeout'') v)"
    using a b c tn by (intro inv_emit_settle[where t = t]) simp_all
  then show ?thesis by (simp add: tf)
qed

lemma inv_fields:
  assumes "currentCommand s' = currentCommand s" "commandQueue s' = commandQueue s"
    "trace s' = trace s" "nextTimeout s' = nextTimeout s" "timers s' = timers s"
  shows "queue_inv s' = queue_inv s"
  using assms by (simp add: queue_inv_def pendingIds_def)

lemma scheduleReconnect_inv: "queue_inv (scheduleReconnect s) = queue_inv s"
  by (simp add: scheduleReconnect_def clearReconnect_def Let_def emit_def queue_inv_def pendingIds_def)

lemma onSocketClose_inv: "queue_inv s \<Longrightarrow> queue_inv (onSocketClose s)"
proof -
  assume i: "queue_inv s"
  have "queue_inv (stopHeartbeat (s\<lparr>connected := False\<rparr>)) = queue_inv s"
    by (rule inv_fields) (simp_all add: stopHeartbeat_def)
  with i have "queue_inv (rejectPending ''Connection closed'' (stopHeartbeat (s\<lparr>connected := False\<rparr>)))"
    by (simp add: rejectPending_inv)
  then show ?thesis
    by (simp add: onSocketClose_def Let_def scheduleReconnect_inv inv_emit_other)
qed

lemma disconnect_inv: "queue_inv s \<Longrightarrow> queue_inv (disconnect s)"
proof -
  assume i: "queue_inv s"
  let ?s0 = "clearReconnect (stopHeartbeat (s\<lparr>intentionalDisconnect := True\<rparr>))"
  have "queue_inv ?s0 = queue_inv s"
    by (rule inv_fields) (simp_all add: stopHeartbeat_def clearReconnect_def)
  with i have r: "queue_inv (rejectPending ''Disconnecting'' ?s0)" by (simp add: rejectPending_inv)
  have "queue_inv (disconnect s) = queue_inv (rejectPending ''Disconnecting'' ?s0)"
    by (rule inv_fields) (simp_all add: disconnect_def Let_def split: option.splits)
  with r show ?thesis by simp
qed

lemma onData_inv: "queue_inv s \<Longrightarrow> queue_inv (onData d s)"
proof -
  assume "queue_inv s"
  then have "queue_inv (parseLoop (s\<lparr>receiveBuffer := receiveBuffer s @ d\<rparr>))"
    by (simp add: parseLoop_inv)
  then show ?thesis by (simp add: onData_def Let_def)
qed

lemma step_inv: "queue_inv s \<Longrightarrow> queue_inv (step e s)"
proof (cases e)
  case (CallEnqueue b)
  assume "queue_inv s" then show ?thesis by (simp add: CallEnqueue enqueue_inv)
next
  case (CallConnect sock)
  assume "queue_inv s" then show ?thesis
    by (simp add: CallConnect connect_def emit_def queue_inv_def pendingIds_def)
next
  case CallDisconnect
  assume "queue_inv s" then show ?thesis by (simp add: CallDisconnect disconnect_inv)
next
  case SocketConnect
  assume "queue_inv s" then show ?thesis
    by (simp add: SocketConnect onSocketConnect_def startHeartbeat_def stopHeartbeat_def
        emit_def queue_inv_def pendingIds_def)
next
  case (SocketData d)
  assume "queue_inv s" then show ?thesis by (simp add: SocketData onData_inv)
next
  case (SocketError err)
  assume "queue_inv s" then show ?thesis by (simp add: SocketError onSocketError_def inv_emit_other)
next
  case SocketClose
  assume "queue_inv s" then show ?thesis by (simp add: SocketClose onSocketClose_inv)
next
  case (TimeoutFired t)
  assume "queue_inv s" then show ?thesis by (simp add: TimeoutFired timeoutFired_inv)
next
  case KickFired
  assume i: "queue_inv s"
  have "queue_inv (s\<lparr>kicks := kicks s - 1\<rparr>) = queue_inv s" by (rule inv_fields) simp_all
  with i show ?thesis by (simp add: KickFired processQueue_inv)
next
  case HeartbeatFired
  assume "queue_inv s" then show ?thesis
    by (simp add: HeartbeatFired heartbeatFired_def query_def enqueue_inv)
next
  case (ReconnectFired sock)
  assume "queue_inv s" then show ?thesis
    by (simp add: ReconnectFired reconnectFired_def connect_def emit_def queue_inv_def pendingIds_def)
qed

lemma run_inv: "queue_inv s \<Longrightarrow> queue_inv (run es s)"
  by (induction es arbitrary: s) (simp_all add: step_inv)


lemma prefix_emit: "prefix (trace s) (trace (emit x s))"
  by (simp add: emit_def)

lemma enqueue_trace: "prefix (trace s) (trace (enqueue b s))"
  using processQueue_trace[of "s\<lparr>nextTimeout := nextTimeout s + 1,
              timers := timers s @ [(nextTimeout s, commandTimeout (options s))],
              commandQueue := commandQueue s @ [\<lparr>buffer = b, timeout = nextTimeout s\<rparr>]\<rparr>"]
  by (simp add: enqueue_def Let_def)

lemma timeoutFired_trace: "prefix (trace s) (trace (timeoutFired t s))"
proof -
  define s1 where "s1 = (case findIndex (\<lambda>q. timeout q = t) (commandQueue s) of
               None \<Rightarrow> s
             | Some idx \<Rightarrow> s\<lparr>commandQueue := take idx (commandQueue s) @ drop (idx + 1) (commandQueue s)\<rparr>)"
  define B where "B \<longleftrightarrow> map_option timeout (currentCommand s1) = Some t"
  define v where "v = (if B then processQueue (s1\<lparr>currentCommand := None\<rparr>) else s1)"
  have tf: "timeoutFired t s = emit (Reject t ''Command timeout'') v"
    by (simp only: timeoutFired_def Let_def B_def s1_def v_def)
  have t1: "trace s1 = trace s"
    by (cases "findIndex (\<lambda>q. timeout q = t) (commandQueue s)") (simp_all add: s1_def)
  have "prefix (trace s1) (trace v)"
    using processQueue_trace[of "s1\<lparr>currentCommand := None\<rparr>"] by (cases B) (simp_all add: v_def)
  then have "prefix (trace s) (trace (emit (Reject t ''Command timeout'') v))"
    unfolding t1 by (simp add: emit_def)
  then show ?thesis by (simp only: tf)
qed

lemma scheduleReconnect_trace: "prefix (trace s) (trace (scheduleReconnect s))"
  by (simp add: scheduleReconnect_def clearReconnect_def Let_def emit_def)

lemma onSocketClose_trace: "prefix (trace s) (trace (onSocketClose s))"
proof -
  let ?r = "rejectPending ''Connection closed'' (stopHeartbeat (s\<lparr>connected := False\<rparr>))"
  let ?s2 = "if connected s then emit (Emit Disconnected) ?r else ?r"
  have a: "prefix (trace s) (trace ?r)"
    by (simp add: rejectPending_fields stopHeartbeat_def)
  have b: "prefix (trace ?r) (trace ?s2)" by (simp add: emit_def)
  have c: "prefix (trace ?s2) (trace (onSocketClose s))"
    using scheduleReconnect_trace[of ?s2] by (simp add: onSocketClose_def Let_def)
  from a b c show ?thesis by (meson prefix_order.trans)
qed

lemma disconnect_trace: "prefix (trace s) (trace (disconnect s))"
  by (simp add: disconnect_def Let_def rejectPending_fields stopHeartbeat_def clearReconnect_def
      split: option.splits)

lemma onData_trace: "prefix (trace s) (trace (onData d s))"
  using parseLoop_trace[of "s\<lparr>receiveBuffer := receiveBuffer s @ d\<rparr>"]
  by (simp add: onData_def Let_def)

lemma step_trace: "prefix (trace s) (trace (step e s))"
proof (cases e)
  case (CallEnqueue b)
  then show ?thesis by (simp add: enqueue_trace)
next
  case (TimeoutFired t)
  then show ?thesis
    using timeoutFired_trace[of "clearTimeout t s" t] by (simp add: clearTimeout_def)
next
  case KickFired
  then show ?thesis using processQueue_trace[of "s\<lparr>kicks := kicks s - 1\<rparr>"] by simp
next
  case HeartbeatFired
  then show ?thesis by (simp add: heartbeatFired_def query_def enqueue_trace)
qed (simp_all add: connect_def reconnectFired_def disconnect_trace onSocketConnect_def
      startHeartbeat_def stopHeartbeat_def emit_def onData_trace onSocketError_def
      onSocketClose_trace)

lemma run_trace: "prefix (trace s) (trace (run es s))"
proof (induction es arbitrary: s)
  case Nil
  then show ?case by simp
next
  case (Cons e es)
  have "prefix (trace s) (trace (step e s))" by (rule step_trace)
  moreover have "prefix (trace (step e s)) (trace (run es (step e s)))" by (rule Cons.IH)
  ultimately show ?case by (simp add: prefix_order.trans)
qed

lemma settled_mem: "x \<in> set tr \<Longrightarrow> settled x = [t] \<Longrightarrow> t \<in> set (settles tr)"
  by (induction tr) auto

lemma settled_unique:
  "distinct (settles tr) \<Longrightarrow> x \<in> set tr \<Longrightarrow> y \<in> set tr
   \<Longrightarrow> settled x = [t] \<Longrightarrow> settled y = [t] \<Longrightarrow> x = y"
proof (induction tr)
  case Nil
  then show ?case by simp
next
  case (Cons a tr)
  show ?case
  proof (cases "x = a")
    case xa: True
    show ?thesis
    proof (cases "y = a")
      case True
      with xa show ?thesis by simp
    next
      case False
      with Cons.prems have "y \<in> set tr" by simp
      then have "t \<in> set (settles tr)" using Cons.prems(5) by (rule settled_mem)
      with Cons.prems(1,4) xa show ?thesis by auto
    qed
  next
    case xna: False
    with Cons.prems have xt: "x \<in> set tr" by simp
    show ?thesis
    proof (cases "y = a")
      case True
      from xt have "t \<in> set (settles tr)" using Cons.prems(4) by (rule settled_mem)
      with Cons.prems(1,5) True show ?thesis by auto
    next
      case False
      with Cons.prems have "y \<in> set tr" by simp
      with Cons xt show ?thesis by simp
    qed
  qed
qed

lemma distinct_count_list: "distinct xs \<Longrightarrow> x \<in> set xs \<Longrightarrow> count_list xs x = 1"
  by (induction xs) auto

text \<open>Once settled in a state satisfying the invariant, settled once for ever.\<close>

lemma settled_for_ever:
  assumes i: "queue_inv s" and m: "Reject t msg \<in> set (trace s)"
  shows "count_list (settles (trace (run es s))) t = 1
       \<and> (\<forall>r. Resolve t r \<notin> set (trace (run es s)))"
proof -
  let ?tr = "trace (run es s)"
  have d: "distinct (settles ?tr)" using run_inv[OF i, of es] by (simp add: queue_inv_def)
  have "set (trace s) \<subseteq> set ?tr" using run_trace[of s es] by (rule set_mono_prefix)
  with m have m': "Reject t msg \<in> set ?tr" by blast
  then have "t \<in> set (settles ?tr)" by (rule settled_mem) simp
  with d have c: "count_list (settles ?tr) t = 1" by (simp add: distinct_count_list)
  have "Resolve t r \<notin> set ?tr" for r
  proof
    assume "Resolve t r \<in> set ?tr"
    from settled_unique[OF d this m', of t] show False by simp
  qed
  with c show ?thesis by blast
qed

section \<open>The receive loop\<close>

lemma parseLoop_exit:
  "parseResponse (receiveBuffer (parseLoop s)) = None
   \<and> length (receiveBuffer (parseLoop s)) \<le> length (receiveBuffer s)"
proof (rule parseLoop_rule[where R = "\<lambda>s s'. parseResponse (receiveBuffer s') = None
      \<and> length (receiveBuffer s') \<le> length (receiveBuffer s)"])
  fix s :: JblConnection and r n s'
  assume "parseResponse (receiveBuffer s) = Some (r, n)"
    and "parseResponse (receiveBuffer s') = None \<and>
       length (receiveBuffer s')
         \<le> length (receiveBuffer (handleResponse r (s\<lparr>receiveBuffer := drop n (receiveBuffer s)\<rparr>)))"
  then show "parseResponse (receiveBuffer s') = None \<and> length (receiveBuffer s') \<le> length (receiveBuffer s)"
    by simp arith
qed simp

text \<open>
  C10. Whenever \<open>parseResponse\<close> returns a result for a buffer, \<open>bytesConsumed\<close> is at least
  6 and at most the length of the buffer, so dropping it shortens the buffer; the receive
  loop (a total function, by that measure) ends with a buffer that is no longer than the
  one it started with and holds no complete frame.
\<close>

theorem parseResponse_progress:
  "(parseResponse b = Some (r, n) \<longrightarrow> 6 \<le> n \<and> n \<le> length b \<and> length (drop n b) < length b)
   \<and> parseResponse (receiveBuffer (parseLoop s)) = None
   \<and> length (receiveBuffer (parseLoop s)) \<le> length (receiveBuffer s)"
proof (intro conjI impI)
  assume "parseResponse b = Some (r, n)"
  from parseResponse_bounds[OF this]
  show "6 \<le> n" "n \<le> length b" "length (drop n b) < length b" by (simp_all, arith)
qed (simp_all add: parseLoop_exit)

theorem parseResponse_progress_witness:
  "parseResponse [0x21, 0x01, 0x0D, 0x00, 0x01, 0x32, 0x0D, 0x07]
     = Some (\<lparr>zone = 1, command = 0x0D, answer = 0, data = [0x32]\<rparr>, 7)
   \<and> (6 :: nat) \<le> 7 \<and> 7 \<le> length [0x21 :: byte, 0x01, 0x0D, 0x00, 0x01, 0x32, 0x0D, 0x07]
   \<and> length (drop 7 [0x21 :: byte, 0x01, 0x0D, 0x00, 0x01, 0x32, 0x0D, 0x07])
        < length [0x21 :: byte, 0x01, 0x0D, 0x00, 0x01, 0x32, 0x0D, 0x07]"
proof -
  have p: "parseResponse [0x21, 0x01, 0x0D, 0x00, 0x01, 0x32, 0x0D, 0x07]
     = Some (\<lparr>zone = 1, command = 0x0D, answer = 0, data = [0x32]\<rparr>, 7)"
    by (simp add: parseResponse.simps u8_def STX_def ETX_def Let_def)
  from parseResponse_progress[of "[0x21, 0x01, 0x0D, 0x00, 0x01, 0x32, 0x0D, 0x07]"
      "\<lparr>zone = 1, command = 0x0D, answer = 0, data = [0x32]\<rparr>" 7] p
  show ?thesis by blast
qed

lemma parseLoop_first:
  assumes "parseResponse (receiveBuffer s) = Some (r, n)"
  shows "prefix (trace (handleResponse r (s\<lparr>receiveBuffer := drop n (receiveBuffer s)\<rparr>)))
           (trace (parseLoop s))"
proof -
  have "parseLoop s = parseLoop (handleResponse r (s\<lparr>receiveBuffer := drop n (receiveBuffer s)\<rparr>))"
    by (subst parseLoop.simps) (simp add: assms)
  then show ?thesis by (simp add: parseLoop_trace)
qed

lemma onData_first:
  assumes "parseResponse (receiveBuffer s @ d) = Some (r, n)"
  shows "prefix (trace (handleResponse r (s\<lparr>receiveBuffer := drop n (receiveBuffer s @ d)\<rparr>)))
           (trace (onData d s))"
  using parseLoop_first[of "s\<lparr>receiveBuffer := receiveBuffer s @ d\<rparr>" r n] assms
  by (simp add: onData_def Let_def)

lemma errorMessage_unknown:
  "a \<notin> {0x82, 0x83, 0x84, 0x85, 0x86} \<Longrightarrow> errorMessage a = ''Unknown error (0x'' @ toString16 a @ '')''"
  by (simp add: errorMessage_def AnswerCode_ZONE_INVALID_def AnswerCode_COMMAND_NOT_RECOGNISED_def
      AnswerCode_PARAMETER_NOT_RECOGNISED_def AnswerCode_COMMAND_INVALID_def
      AnswerCode_INVALID_DATA_LENGTH_def)

text \<open>
  C8. When a frame is parsed while a command is in flight and its answer code is at
  least 0x82 (\<open>isError\<close>), the command is rejected with \<open>errorMessage\<close> of the answer:
  0x83 gives "Command not recognised", each other known code its own text, and every
  other code "Unknown error (0x..)" with the code in hexadecimal.
\<close>

theorem error_frame_rejects_with_message:
  assumes "currentCommand s = Some c"
    and "parseResponse (receiveBuffer s @ d) = Some (r, n)"
    and "isError r"
  shows "(\<exists>rest. trace (onData d s) = trace s @ Reject (timeout c) (errorMessage (answer r)) # rest)
       \<and> isError r' = (0x82 \<le> answer r')
       \<and> errorMessage 0x82 = ''Zone invalid''
       \<and> errorMessage 0x83 = ''Command not recognised''
       \<and> errorMessage 0x84 = ''Parameter not recognised''
       \<and> errorMessage 0x85 = ''Command invalid at this time''
       \<and> errorMessage 0x86 = ''Invalid data length''
       \<and> (a \<notin> {0x82, 0x83, 0x84, 0x85, 0x86} \<longrightarrow>
            errorMessage a = ''Unknown error (0x'' @ toString16 a @ '')'')
       \<and> errorMessage 0x87 = ''Unknown error (0x87)''
       \<and> errorMessage 0xFF = ''Unknown error (0xff)''"
proof -
  have "trace (handleResponse r (s\<lparr>receiveBuffer := drop n (receiveBuffer s @ d)\<rparr>))
          = trace s @ [Reject (timeout c) (errorMessage (answer r))]"
    using assms(1,3) by (simp add: handleResponse_def emit_def clearTimeout_def Let_def)
  with onData_first[OF assms(2)]
  have "prefix (trace s @ [Reject (timeout c) (errorMessage (answer r))]) (trace (onData d s))"
    by simp
  then have 1: "\<exists>rest. trace (onData d s) = trace s @ Reject (timeout c) (errorMessage (answer r)) # rest"
    by (auto simp: prefix_def)
  have 2: "errorMessage 0x82 = ''Zone invalid''" "errorMessage 0x83 = ''Command not recognised''"
    "errorMessage 0x84 = ''Parameter not recognised''"
    "errorMessage 0x85 = ''Command invalid at this time''"
    "errorMessage 0x86 = ''Invalid data length''"
    by (simp_all add: errorMessage_def AnswerCode_ZONE_INVALID_def AnswerCode_COMMAND_NOT_RECOGNISED_def
      AnswerCode_PARAMETER_NOT_RECOGNISED_def AnswerCode_COMMAND_INVALID_def
      AnswerCode_INVALID_DATA_LENGTH_def)
  have 3: "errorMessage 0x87 = ''Unknown error (0x87)''" "errorMessage 0xFF = ''Unknown error (0xff)''"
    by (simp_all add: errorMessage_unknown toString16_def hexDigit_def)
  have 4: "isError r' = (0x82 \<le> answer r')" by (simp add: isError_def)
  from 1 2 3 4 errorMessage_unknown[of a] show ?thesis by blast
qed

theorem error_frame_rejects_with_message_witness:
  "currentCommand ((constructor [] 0 None None None None)\<lparr>currentCommand := Some \<lparr>buffer = [], timeout = 0\<rparr>\<rparr>)
     = Some \<lparr>buffer = [], timeout = 0\<rparr>
   \<and> parseResponse (receiveBuffer ((constructor [] 0 None None None None)
         \<lparr>currentCommand := Some \<lparr>buffer = [], timeout = 0\<rparr>\<rparr>) @ [0x21, 0x01, 0x0D, 0x83, 0x00, 0x0D])
       = Some (\<lparr>zone = 1, command = 0x0D, answer = 0x83, data = []\<rparr>, 6)
   \<and> isError \<lparr>zone = 1, command = 0x0D, answer = 0x83, data = []\<rparr>
   \<and> (\<exists>rest. trace (onData [0x21, 0x01, 0x0D, 0x83, 0x00, 0x0D]
          ((constructor [] 0 None None None None)\<lparr>currentCommand := Some \<lparr>buffer = [], timeout = 0\<rparr>\<rparr>))
        = Reject 0 ''Command not recognised'' # rest)
   \<and> (0x90 :: int) \<notin> {0x82, 0x83, 0x84, 0x85, 0x86}
   \<and> errorMessage 0x90 = ''Unknown error (0x90)''"
proof -
  let ?s = "(constructor [] 0 None None None None)\<lparr>currentCommand := Some \<lparr>buffer = [], timeout = 0\<rparr>\<rparr>"
  let ?r = "\<lparr>zone = 1, command = 0x0D, answer = 0x83, data = []\<rparr>"
  have c: "currentCommand ?s = Some \<lparr>buffer = [], timeout = 0\<rparr>" by simp
  have p: "parseResponse (receiveBuffer ?s @ [0x21, 0x01, 0x0D, 0x83, 0x00, 0x0D]) = Some (?r, 6)"
    by (simp add: constructor_def parseResponse.simps u8_def STX_def ETX_def Let_def)
  have e: "isError ?r" by (simp add: isError_def)
  have n: "(0x90 :: int) \<notin> {0x82, 0x83, 0x84, 0x85, 0x86}" by simp
  from error_frame_rejects_with_message[OF c p e, where r' = "?r" and a = "0x90"] n
  have "(\<exists>rest. trace (onData [0x21, 0x01, 0x0D, 0x83, 0x00, 0x0D] ?s)
        = Reject 0 ''Command not recognised'' # rest)
      \<and> errorMessage 0x90 = ''Unknown error (0x90)''"
    by (auto simp: constructor_def toString16_def hexDigit_def)
  with c p e n show ?thesis by blast
qed

section \<open>What rejecting the pending commands leaves alone\<close>

lemma foldl_reject_only:
  "\<exists>T TR. foldl (\<lambda>st queued. emit (Reject (timeout queued) reason) (clearTimeout (timeout queued) st)) s qs
     = s\<lparr>timers := T, trace := TR\<rparr>"
proof (induction qs arbitrary: s)
  case Nil
  show ?case by (rule exI[of _ "timers s"], rule exI[of _ "trace s"]) simp
next
  case (Cons q qs)
  let ?s1 = "emit (Reject (timeout q) reason) (clearTimeout (timeout q) s)"
  from Cons.IH[of ?s1] obtain T TR where
    "foldl (\<lambda>st queued. emit (Reject (timeout queued) reason) (clearTimeout (timeout queued) st)) ?s1 qs
       = ?s1\<lparr>timers := T, trace := TR\<rparr>" by blast
  moreover have "?s1\<lparr>timers := T, trace := TR\<rparr> = s\<lparr>timers := T, trace := TR\<rparr>"
    by (simp add: emit_def clearTimeout_def)
  ultimately show ?case by (simp only: foldl_Cons) metis
qed

lemma rejectPending_only:
  "\<exists>T TR. rejectPending reason s
     = s\<lparr>currentCommand := None, commandQueue := [], timers := T, trace := TR\<rparr>"
proof -
  define s1 where "s1 = (case currentCommand s of
                  Some cur \<Rightarrow>
                    (emit (Reject (timeout cur) reason) (clearTimeout (timeout cur) s))
                      \<lparr>currentCommand := None\<rparr>
                | None \<Rightarrow> s)"
  have s1: "\<exists>T TR. s1 = s\<lparr>currentCommand := None, timers := T, trace := TR\<rparr>"
  proof (cases "currentCommand s")
    case None
    then have "s1 = s\<lparr>currentCommand := None, timers := timers s, trace := trace s\<rparr>"
      by (simp add: s1_def)
    then show ?thesis by blast
  next
    case (Some cur)
    then have "s1 = s\<lparr>currentCommand := None,
        timers := filter (\<lambda>x. fst x \<noteq> timeout cur) (timers s),
        trace := trace s @ [Reject (timeout cur) reason]\<rparr>"
      by (simp add: s1_def emit_def clearTimeout_def)
    then show ?thesis by blast
  qed
  then obtain T TR where e1: "s1 = s\<lparr>currentCommand := None, timers := T, trace := TR\<rparr>" by blast
  from foldl_reject_only[of reason s1 "commandQueue s1"] obtain T' TR' where
    e2: "foldl (\<lambda>st queued. emit (Reject (timeout queued) reason) (clearTimeout (timeout queued) st))
           s1 (commandQueue s1) = s1\<lparr>timers := T', trace := TR'\<rparr>" by blast
  have "rejectPending reason s = (s1\<lparr>timers := T', trace := TR'\<rparr>)\<lparr>commandQueue := []\<rparr>"
    unfolding rejectPending_def Let_def s1_def[symmetric] e2 ..
  also have "\<dots> = s\<lparr>currentCommand := None, commandQueue := [], timers := T', trace := TR'\<rparr>"
    by (simp add: e1)
  finally show ?thesis by blast
qed

lemma rejectPending_other:
  "options (rejectPending reason s) = options s"
  "reconnectAttempts (rejectPending reason s) = reconnectAttempts s"
  "intentionalDisconnect (rejectPending reason s) = intentionalDisconnect s"
  "reconnectTimer (rejectPending reason s) = reconnectTimer s"
  "heartbeatTimer (rejectPending reason s) = heartbeatTimer s"
  "connected (rejectPending reason s) = connected s"
  "socket (rejectPending reason s) = socket s"
  "receiveBuffer (rejectPending reason s) = receiveBuffer s"
  "kicks (rejectPending reason s) = kicks s"
proof -
  obtain T TR where e: "rejectPending reason s
     = s\<lparr>currentCommand := None, commandQueue := [], timers := T, trace := TR\<rparr>"
    using rejectPending_only by blast
  show "options (rejectPending reason s) = options s"
    "reconnectAttempts (rejectPending reason s) = reconnectAttempts s"
    "intentionalDisconnect (rejectPending reason s) = intentionalDisconnect s"
    "reconnectTimer (rejectPending reason s) = reconnectTimer s"
    "heartbeatTimer (rejectPending reason s) = heartbeatTimer s"
    "connected (rejectPending reason s) = connected s"
    "socket (rejectPending reason s) = socket s"
    "receiveBuffer (rejectPending reason s) = receiveBuffer s"
    "kicks (rejectPending reason s) = kicks s"
    by (simp_all add: e)
qed

section \<open>Draining the queue\<close>

text \<open>The invariant holds in every state a new connection can reach.\<close>

lemma inv_constructor: "queue_inv (constructor h p rd mrd hb ct)"
  by (simp add: queue_inv_def pendingIds_def constructor_def)

lemma reachable_queue_inv: "queue_inv (run es (constructor h p rd mrd hb ct))"
  by (rule run_inv) (rule inv_constructor)

lemma disconnect_fields:
  "trace (disconnect s) = trace s @ map (\<lambda>t. Reject t ''Disconnecting'') (pendingIds s)"
  "currentCommand (disconnect s) = None"
  "commandQueue (disconnect s) = []"
proof -
  let ?s0 = "clearReconnect (stopHeartbeat (s\<lparr>intentionalDisconnect := True\<rparr>))"
  have p: "pendingIds ?s0 = pendingIds s" "trace ?s0 = trace s"
    by (simp_all add: pendingIds_def clearReconnect_def stopHeartbeat_def)
  show "trace (disconnect s) = trace s @ map (\<lambda>t. Reject t ''Disconnecting'') (pendingIds s)"
    using p by (simp add: disconnect_def Let_def rejectPending_fields split: option.splits)
  show "currentCommand (disconnect s) = None"
    by (simp add: disconnect_def Let_def rejectPending_fields split: option.splits)
  show "commandQueue (disconnect s) = []"
    by (simp add: disconnect_def Let_def rejectPending_fields split: option.splits)
qed

lemma onSocketClose_trace_eq:
  "trace (onSocketClose s)
     = trace s @ map (\<lambda>t. Reject t ''Connection closed'') (pendingIds s)
       @ (if connected s then [Emit Disconnected] else [])
       @ (if intentionalDisconnect s then []
          else [Emit (Reconnecting (js_incr (reconnectAttempts s))
                  (Math_min (js_times (reconnectDelay (options s)) (Math_pow2 (reconnectAttempts s)))
                            (maxReconnectDelay (options s))))])"
proof -
  let ?s0 = "stopHeartbeat (s\<lparr>connected := False\<rparr>)"
  have p: "pendingIds ?s0 = pendingIds s" "trace ?s0 = trace s"
    "intentionalDisconnect ?s0 = intentionalDisconnect s" "options ?s0 = options s"
    "reconnectAttempts ?s0 = reconnectAttempts s"
    by (simp_all add: pendingIds_def stopHeartbeat_def)
  show ?thesis
    by (simp add: onSocketClose_def Let_def scheduleReconnect_def clearReconnect_def emit_def
        rejectPending_fields rejectPending_other p)
qed

lemma onSocketClose_fields:
  "\<exists>evs. trace (onSocketClose s)
       = trace s @ map (\<lambda>t. Reject t ''Connection closed'') (pendingIds s) @ evs \<and> settles evs = []"
  "currentCommand (onSocketClose s) = None"
  "commandQueue (onSocketClose s) = []"
proof -
  let ?evs = "(if connected s then [Emit Disconnected] else [])
       @ (if intentionalDisconnect s then []
          else [Emit (Reconnecting (js_incr (reconnectAttempts s))
                  (Math_min (js_times (reconnectDelay (options s)) (Math_pow2 (reconnectAttempts s)))
                            (maxReconnectDelay (options s))))])"
  have "trace (onSocketClose s)
       = trace s @ map (\<lambda>t. Reject t ''Connection closed'') (pendingIds s) @ ?evs"
    by (rule onSocketClose_trace_eq)
  moreover have "settles ?evs = []" by simp
  ultimately show "\<exists>evs. trace (onSocketClose s)
       = trace s @ map (\<lambda>t. Reject t ''Connection closed'') (pendingIds s) @ evs \<and> settles evs = []"
    by blast
  show "currentCommand (onSocketClose s) = None"
    by (simp add: onSocketClose_def scheduleReconnect_def clearReconnect_def Let_def emit_def
        rejectPending_fields)
  show "commandQueue (onSocketClose s) = []"
    by (simp add: onSocketClose_def scheduleReconnect_def clearReconnect_def Let_def emit_def
        rejectPending_fields)
qed

text \<open>
  C5. In a state satisfying the invariant, \<open>disconnect\<close> and the socket's \<open>'close'\<close> each
  reject every pending command, the one in flight first and then the queue in order, once
  each, with "Disconnecting" or "Connection closed", settle nothing else, and leave the
  queue empty with nothing in flight. Whatever happens afterwards, each of these commands
  stays settled exactly once and is never resolved.
\<close>

theorem disconnect_rejects_all_pending:
  assumes "queue_inv s"
  shows "distinct (pendingIds s)
       \<and> commandQueue (step CallDisconnect s) = [] \<and> currentCommand (step CallDisconnect s) = None
       \<and> trace (step CallDisconnect s) = trace s @ map (\<lambda>t. Reject t ''Disconnecting'') (pendingIds s)
       \<and> commandQueue (step SocketClose s) = [] \<and> currentCommand (step SocketClose s) = None
       \<and> (\<exists>evs. trace (step SocketClose s)
             = trace s @ map (\<lambda>t. Reject t ''Connection closed'') (pendingIds s) @ evs
             \<and> settles evs = [])
       \<and> (\<forall>e \<in> {CallDisconnect, SocketClose}. \<forall>t \<in> set (pendingIds s). \<forall>es.
             count_list (settles (trace (run es (step e s)))) t = 1
             \<and> (\<forall>r. Resolve t r \<notin> set (trace (run es (step e s)))))"
proof -
  have d: "distinct (pendingIds s)" using assms by (simp add: queue_inv_def)
  have later: "count_list (settles (trace (run es (step e s)))) t = 1
             \<and> (\<forall>r. Resolve t r \<notin> set (trace (run es (step e s))))"
    if e: "e \<in> {CallDisconnect, SocketClose}" and t: "t \<in> set (pendingIds s)" for e t es
  proof -
    have i: "queue_inv (step e s)" using assms by (rule step_inv)
    have "\<exists>msg. Reject t msg \<in> set (trace (step e s))"
    proof (cases "e = CallDisconnect")
      case True
      have "Reject t ''Disconnecting'' \<in> set (trace (disconnect s))"
        using t by (simp add: disconnect_fields)
      then show ?thesis using True by auto
    next
      case False
      with e have c: "e = SocketClose" by simp
      from onSocketClose_fields(1)[of s] obtain evs where
        "trace (onSocketClose s)
           = trace s @ map (\<lambda>t. Reject t ''Connection closed'') (pendingIds s) @ evs" by blast
      then have "Reject t ''Connection closed'' \<in> set (trace (onSocketClose s))"
        using t by simp
      then show ?thesis using c by auto
    qed
    then obtain msg where "Reject t msg \<in> set (trace (step e s))" by blast
    from settled_for_ever[OF i this] show ?thesis .
  qed
  from d later onSocketClose_fields[of s] show ?thesis
    by (simp add: disconnect_fields)
qed

theorem disconnect_rejects_all_pending_witness:
  "queue_inv ((constructor [] 0 None None None None)
         \<lparr>commandQueue := [\<lparr>buffer = [2], timeout = 3\<rparr>],
          currentCommand := Some \<lparr>buffer = [1], timeout = 2\<rparr>, nextTimeout := 4, timers := [(2, 5000), (3, 5000)]\<rparr>)
   \<and> CallDisconnect \<in> {CallDisconnect, SocketClose}
   \<and> 3 \<in> set (pendingIds ((constructor [] 0 None None None None)
         \<lparr>commandQueue := [\<lparr>buffer = [2], timeout = 3\<rparr>],
          currentCommand := Some \<lparr>buffer = [1], timeout = 2\<rparr>, nextTimeout := 4, timers := [(2, 5000), (3, 5000)]\<rparr>))
   \<and> trace (step CallDisconnect ((constructor [] 0 None None None None)
         \<lparr>commandQueue := [\<lparr>buffer = [2], timeout = 3\<rparr>],
          currentCommand := Some \<lparr>buffer = [1], timeout = 2\<rparr>, nextTimeout := 4, timers := [(2, 5000), (3, 5000)]\<rparr>))
       = [Reject 2 ''Disconnecting'', Reject 3 ''Disconnecting'']
   \<and> count_list (settles (trace (run [SocketData [0x21, 0x01, 0x0D, 0x00, 0x00, 0x0D]]
         (step CallDisconnect ((constructor [] 0 None None None None)
         \<lparr>commandQueue := [\<lparr>buffer = [2], timeout = 3\<rparr>],
          currentCommand := Some \<lparr>buffer = [1], timeout = 2\<rparr>, nextTimeout := 4, timers := [(2, 5000), (3, 5000)]\<rparr>))))) 3 = 1"
proof -
  let ?s = "(constructor [] 0 None None None None)
         \<lparr>commandQueue := [\<lparr>buffer = [2], timeout = 3\<rparr>],
          currentCommand := Some \<lparr>buffer = [1], timeout = 2\<rparr>, nextTimeout := 4, timers := [(2, 5000), (3, 5000)]\<rparr>"
  have p: "pendingIds ?s = [2, 3]" "trace ?s = []"
    by (simp_all add: pendingIds_def constructor_def)
  have i: "queue_inv ?s" unfolding queue_inv_def p by (simp add: constructor_def)
  have e: "CallDisconnect \<in> {CallDisconnect, SocketClose}" by simp
  have t: "3 \<in> set (pendingIds ?s)" by (simp add: p)
  note T = disconnect_rejects_all_pending[OF i]
  from T have a: "trace (step CallDisconnect ?s) = [Reject 2 ''Disconnecting'', Reject 3 ''Disconnecting'']"
    by (simp add: p)
  from T e t have b: "count_list (settles (trace (run [SocketData [0x21, 0x01, 0x0D, 0x00, 0x00, 0x0D]]
         (step CallDisconnect ?s)))) 3 = 1"
    by blast
  from i e t a b show ?thesis by blast
qed

section \<open>Reconnecting\<close>

lemma same_conf_refl [simp]: "same_conf s s"
  by (simp add: same_conf_def)

lemma same_conf_trans: "same_conf s s' \<Longrightarrow> same_conf s' s'' \<Longrightarrow> same_conf s s''"
  by (simp add: same_conf_def)

lemma processQueue_conf: "same_conf s (processQueue s)"
proof (rule processQueue_rule[where R = same_conf])
  fix s :: JblConnection and q qs sock sock' err s'
  assume "same_conf (writeFailed s q qs sock' err) s'"
  moreover have "same_conf s (writeFailed s q qs sock' err)"
    by (simp add: same_conf_def writeFailed_def promoted_def emit_def clearTimeout_def)
  ultimately show "same_conf s s'" by (rule same_conf_trans[rotated])
qed (simp_all add: same_conf_def emit_def promoted_def)

lemma enqueue_conf: "same_conf s (enqueue b s)"
  using processQueue_conf[of "s\<lparr>nextTimeout := nextTimeout s + 1,
              timers := timers s @ [(nextTimeout s, commandTimeout (options s))],
              commandQueue := commandQueue s @ [\<lparr>buffer = b, timeout = nextTimeout s\<rparr>]\<rparr>"]
  by (simp add: enqueue_def Let_def same_conf_def)

lemma timeoutFired_conf: "same_conf s (timeoutFired t s)"
proof -
  define s1 where "s1 = (case findIndex (\<lambda>q. timeout q = t) (commandQueue s) of
               None \<Rightarrow> s
             | Some idx \<Rightarrow> s\<lparr>commandQueue := take idx (commandQueue s) @ drop (idx + 1) (commandQueue s)\<rparr>)"
  define B where "B \<longleftrightarrow> map_option timeout (currentCommand s1) = Some t"
  define v where "v = (if B then processQueue (s1\<lparr>currentCommand := None\<rparr>) else s1)"
  have tf: "timeoutFired t s = emit (Reject t ''Command timeout'') v"
    by (simp only: timeoutFired_def Let_def B_def s1_def v_def)
  have a: "same_conf s s1"
    by (cases "findIndex (\<lambda>q. timeout q = t) (commandQueue s)") (simp_all add: s1_def same_conf_def)
  have "same_conf s1 v"
    using processQueue_conf[of "s1\<lparr>currentCommand := None\<rparr>"]
    by (cases B) (simp_all add: v_def same_conf_def)
  with a have "same_conf s v" by (rule same_conf_trans)
  then show ?thesis by (simp add: tf same_conf_def emit_def)
qed

lemma parseLoop_conf: "same_conf s (parseLoop s)"
proof (rule parseLoop_rule[where R = same_conf])
  fix s :: JblConnection and r n s'
  assume "same_conf (handleResponse r (s\<lparr>receiveBuffer := drop n (receiveBuffer s)\<rparr>)) s'"
  moreover have "same_conf s (handleResponse r (s\<lparr>receiveBuffer := drop n (receiveBuffer s)\<rparr>))"
    by (cases "currentCommand s")
       (simp_all add: same_conf_def handleResponse_def emit_def clearTimeout_def Let_def)
  ultimately show "same_conf s s'" by (rule same_conf_trans[rotated])
qed simp

lemma onData_conf: "same_conf s (onData d s)"
  using parseLoop_conf[of "s\<lparr>receiveBuffer := receiveBuffer s @ d\<rparr>"]
  by (simp add: onData_def Let_def same_conf_def)

text \<open>
  No event changes the options. Only a successful connect and a close change the attempt
  counter, and only \<open>disconnect\<close> sets the intentional-disconnect flag.
\<close>

lemma step_options: "options (step e s) = options s"
proof (cases e)
  case (CallEnqueue b)
  then show ?thesis using enqueue_conf[of s b] by (simp add: same_conf_def)
next
  case (SocketData d)
  then show ?thesis using onData_conf[of s d] by (simp add: same_conf_def)
next
  case (TimeoutFired t)
  then show ?thesis using timeoutFired_conf[of "clearTimeout t s" t]
    by (simp add: same_conf_def clearTimeout_def)
next
  case KickFired
  then show ?thesis using processQueue_conf[of "s\<lparr>kicks := kicks s - 1\<rparr>"]
    by (simp add: same_conf_def)
next
  case HeartbeatFired
  then show ?thesis using enqueue_conf[of s "buildQuery Zone_MASTER Cmd_HEARTBEAT"]
    by (simp add: same_conf_def heartbeatFired_def query_def)
next
  case SocketClose
  then show ?thesis
    by (simp add: onSocketClose_def Let_def scheduleReconnect_def clearReconnect_def emit_def
        rejectPending_other stopHeartbeat_def)
next
  case CallDisconnect
  then show ?thesis
    by (simp add: disconnect_def Let_def rejectPending_other stopHeartbeat_def clearReconnect_def
        split: option.splits)
qed (simp_all add: connect_def reconnectFired_def emit_def onSocketConnect_def startHeartbeat_def
      stopHeartbeat_def onSocketError_def)

lemma run_options: "options (run es s) = options s"
  by (induction es arbitrary: s) (simp_all add: step_options)

lemma step_counter:
  assumes "e \<noteq> SocketConnect" and "e \<noteq> CallDisconnect" and "\<not> intentionalDisconnect s"
  shows "\<not> intentionalDisconnect (step e s)
       \<and> reconnectAttempts (step e s)
           = (if e = SocketClose then js_incr (reconnectAttempts s) else reconnectAttempts s)"
proof (cases e)
  case (CallEnqueue b)
  then show ?thesis using enqueue_conf[of s b] assms(3) by (simp add: same_conf_def)
next
  case (SocketData d)
  then show ?thesis using onData_conf[of s d] assms(3) by (simp add: same_conf_def)
next
  case (TimeoutFired t)
  then show ?thesis using timeoutFired_conf[of "clearTimeout t s" t] assms(3)
    by (simp add: same_conf_def clearTimeout_def)
next
  case KickFired
  then show ?thesis using processQueue_conf[of "s\<lparr>kicks := kicks s - 1\<rparr>"] assms(3)
    by (simp add: same_conf_def)
next
  case HeartbeatFired
  then show ?thesis using enqueue_conf[of s "buildQuery Zone_MASTER Cmd_HEARTBEAT"] assms(3)
    by (simp add: same_conf_def heartbeatFired_def query_def)
next
  case SocketClose
  then show ?thesis using assms(3)
    by (simp add: onSocketClose_def Let_def scheduleReconnect_def clearReconnect_def emit_def
        rejectPending_other stopHeartbeat_def)
next
  case CallDisconnect
  then show ?thesis using assms(2) by simp
next
  case SocketConnect
  then show ?thesis using assms(1) by simp
next
  case (CallConnect sock)
  then show ?thesis by (simp add: connect_def emit_def)
next
  case (SocketError err)
  then show ?thesis using assms(3) by (simp add: onSocketError_def emit_def)
next
  case (ReconnectFired sock)
  then show ?thesis using assms(3) by (simp add: reconnectFired_def connect_def emit_def)
qed

lemma run_counter:
  assumes "SocketConnect \<notin> set es" and "CallDisconnect \<notin> set es"
    and "\<not> intentionalDisconnect s"
    and "reconnectAttempts s + count_list es SocketClose \<le> 2 ^ 53"
  shows "\<not> intentionalDisconnect (run es s)
       \<and> reconnectAttempts (run es s) = reconnectAttempts s + count_list es SocketClose"
  using assms
proof (induction es arbitrary: s)
  case Nil
  then show ?case by simp
next
  case (Cons e es)
  have e: "e \<noteq> SocketConnect" "e \<noteq> CallDisconnect" using Cons.prems(1,2) by auto
  note st = step_counter[OF e Cons.prems(3)]
  show ?case
  proof (cases "e = SocketClose")
    case True
    have lt: "reconnectAttempts s < 2 ^ 53" using Cons.prems(4) True by simp
    then have a: "reconnectAttempts (step e s) = reconnectAttempts s + 1"
      using st True by (simp add: js_incr_def)
    have "reconnectAttempts (step e s) + count_list es SocketClose \<le> 2 ^ 53"
      using Cons.prems(4) True a by simp
    from Cons.IH[OF _ _ _ this] Cons.prems(1,2) st a True show ?thesis by simp
  next
    case False
    then have a: "reconnectAttempts (step e s) = reconnectAttempts s" using st by simp
    have "reconnectAttempts (step e s) + count_list es SocketClose \<le> 2 ^ 53"
      using Cons.prems(4) False a by simp
    from Cons.IH[OF _ _ _ this] Cons.prems(1,2) st a False show ?thesis by simp
  qed
qed

text \<open>The delay, in the cases where the doubles give the product of the formula.\<close>

lemma backoff_delay:
  assumes "0 < a \<or> n < 1024" and "m < 2 ^ 1024"
  shows "Math_min (js_times a (Math_pow2 n)) m = Finite (min (a * 2 ^ n) m)"
proof (cases "n < 1024")
  case True
  show ?thesis
  proof (cases "a * 2 ^ n < (2 :: nat) ^ 1024")
    case True
    with \<open>n < 1024\<close> show ?thesis by (simp add: Math_min_def js_times_def Math_pow2_def)
  next
    case False
    then have "m \<le> a * 2 ^ n" using assms(2) by simp
    with False \<open>n < 1024\<close> show ?thesis
      by (simp add: Math_min_def js_times_def Math_pow2_def min_def)
  qed
next
  case False
  then have a: "0 < a" using assms(1) by simp
  have "(2 :: nat) ^ 1024 \<le> 2 ^ n" using False by (intro power_increasing) simp_all
  also have "\<dots> \<le> a * 2 ^ n" using a by simp
  finally have "m \<le> a * 2 ^ n" using assms(2) by simp
  with False a show ?thesis
    by (simp add: Math_min_def js_times_def Math_pow2_def min_def)
qed

lemma default_delays:
  "min (3000 * 2 ^ n) (60000 :: nat) = [3000, 6000, 12000, 24000, 48000, 60000, 60000] ! min n 6"
proof (cases "n < 5")
  case True
  then consider "n = 0" | "n = 1" | "n = 2" | "n = 3" | "n = 4" by arith
  then show ?thesis by cases simp_all
next
  case False
  then have "(2 :: nat) ^ 5 \<le> 2 ^ n" by (intro power_increasing) simp_all
  then have "(60000 :: nat) \<le> 3000 * 2 ^ n" by simp
  moreover have "[3000, 6000, 12000, 24000, 48000, 60000, 60000 :: nat] ! min n 6 = 60000"
  proof (cases "n = 5")
    case True
    then show ?thesis by simp
  next
    case False
    with \<open>\<not> n < 5\<close> have "min n 6 = 6" by simp
    then show ?thesis by simp
  qed
  ultimately show ?thesis by (simp add: min_def)
qed

lemma close_reconnect:
  assumes "\<not> intentionalDisconnect s"
  shows "reconnectAttempts (onSocketClose s) = js_incr (reconnectAttempts s)"
    and "reconnectTimer (onSocketClose s)
           = Some (Math_min (js_times (reconnectDelay (options s)) (Math_pow2 (reconnectAttempts s)))
                            (maxReconnectDelay (options s)))"
  using assms
  by (simp_all add: onSocketClose_def Let_def scheduleReconnect_def clearReconnect_def
      stopHeartbeat_def emit_def rejectPending_other)

lemma count_list_replicate: "count_list (replicate k x) x = k"
  by (induction k) simp_all

text \<open>
  C6. Take a connection that was not disconnected on purpose and whose attempt counter is
  0, and any events \<open>es\<close> without a successful connect and without a call of \<open>disconnect\<close>,
  among them \<open>n\<close> closes: timers firing, calls of \<open>connect\<close>, data and errors may lie between
  the closes. Let \<open>n\<close> be below 2^53, the limit delay a finite double, and the base delay
  positive or \<open>n\<close> below 1024. Then the next close, the one that schedules attempt \<open>n\<close>
  (n = 0, 1, 2, ...), appends to the trace the rejections of the pending commands, then
  \<open>'disconnected'\<close> if the connection was up, then as the last effect \<open>'reconnecting'\<close> with
  the attempt number \<open>n + 1\<close> and the delay min(base * 2^n, max), and nothing else: it
  does not connect. It leaves the counter at \<open>n + 1\<close> and the reconnect timer armed with
  that delay; when that timer fires, the socket is told to connect to the configured
  port and host. With base 3000 and max 60000 the delay is the entry \<open>n\<close> of
  3000, 6000, 12000, 24000, 48000, 60000, 60000, and 60000 from there on.
\<close>

theorem reconnect_backoff:
  assumes "\<not> intentionalDisconnect s" and "reconnectAttempts s = 0"
    and "SocketConnect \<notin> set es" and "CallDisconnect \<notin> set es"
    and "count_list es SocketClose = n" and "n < 2 ^ 53"
    and "0 < reconnectDelay (options s) \<or> n < 1024"
    and "maxReconnectDelay (options s) < 2 ^ 1024"
  shows "trace (step SocketClose (run es s))
           = trace (run es s)
             @ map (\<lambda>t. Reject t ''Connection closed'') (pendingIds (run es s))
             @ (if connected (run es s) then [Emit Disconnected] else [])
             @ [Emit (Reconnecting (n + 1)
                  (Finite (min (reconnectDelay (options s) * 2 ^ n) (maxReconnectDelay (options s)))))]
       \<and> reconnectAttempts (step SocketClose (run es s)) = n + 1
       \<and> reconnectTimer (step SocketClose (run es s))
           = Some (Finite (min (reconnectDelay (options s) * 2 ^ n) (maxReconnectDelay (options s))))
       \<and> (\<forall>sock. trace (step (ReconnectFired sock) (step SocketClose (run es s)))
             = trace (step SocketClose (run es s)) @ [ConnectTo (port (options s)) (host (options s))])
       \<and> (reconnectDelay (options s) = 3000 \<and> maxReconnectDelay (options s) = 60000
          \<longrightarrow> min (reconnectDelay (options s) * 2 ^ n) (maxReconnectDelay (options s))
              = [3000, 6000, 12000, 24000, 48000, 60000, 60000] ! min n 6)"
proof -
  let ?s' = "run es s"
  let ?d = "Finite (min (reconnectDelay (options s) * 2 ^ n) (maxReconnectDelay (options s)))"
  have "reconnectAttempts s + count_list es SocketClose \<le> 2 ^ 53" using assms(2,5,6) by simp
  from run_counter[OF assms(3,4,1) this]
  have c: "\<not> intentionalDisconnect ?s'" "reconnectAttempts ?s' = n" using assms(2,5) by simp_all
  have o: "options ?s' = options s" by (rule run_options)
  have d: "Math_min (js_times (reconnectDelay (options ?s')) (Math_pow2 (reconnectAttempts ?s')))
             (maxReconnectDelay (options ?s')) = ?d"
    unfolding o c(2) using assms(7,8) by (rule backoff_delay)
  have i: "js_incr (reconnectAttempts ?s') = n + 1" using assms(6) by (simp add: c(2) js_incr_def)
  have t: "trace (step SocketClose ?s')
           = trace ?s' @ map (\<lambda>t. Reject t ''Connection closed'') (pendingIds ?s')
             @ (if connected ?s' then [Emit Disconnected] else [])
             @ [Emit (Reconnecting (n + 1) ?d)]"
    using onSocketClose_trace_eq[of ?s'] c(1) by (simp only: step.simps d i if_False)
  have a: "reconnectAttempts (step SocketClose ?s') = n + 1"
    using close_reconnect(1)[OF c(1)] i by simp
  have r: "reconnectTimer (step SocketClose ?s') = Some ?d"
    using close_reconnect(2)[OF c(1)] d by simp
  have f: "trace (step (ReconnectFired sock) (step SocketClose ?s'))
             = trace (step SocketClose ?s') @ [ConnectTo (port (options s)) (host (options s))]" for sock
  proof -
    have "options (step SocketClose ?s') = options s" by (simp only: step_options o)
    with r show ?thesis by (simp add: reconnectFired_def connect_def emit_def)
  qed
  have l: "reconnectDelay (options s) = 3000 \<and> maxReconnectDelay (options s) = 60000
          \<longrightarrow> min (reconnectDelay (options s) * 2 ^ n) (maxReconnectDelay (options s))
              = [3000, 6000, 12000, 24000, 48000, 60000, 60000] ! min n 6"
    using default_delays[of n] by simp
  from t a r f l show ?thesis by blast
qed

theorem reconnect_backoff_witness:
  "\<not> intentionalDisconnect (constructor [] 0 None None None None)
   \<and> reconnectAttempts (constructor [] 0 None None None None) = 0
   \<and> SocketConnect \<notin> set [SocketClose, ReconnectFired (Socket []), SocketClose]
   \<and> CallDisconnect \<notin> set [SocketClose, ReconnectFired (Socket []), SocketClose]
   \<and> count_list [SocketClose, ReconnectFired (Socket []), SocketClose] SocketClose = 2
   \<and> (2 :: nat) < 2 ^ 53
   \<and> 0 < reconnectDelay (options (constructor [] 0 None None None None))
   \<and> maxReconnectDelay (options (constructor [] 0 None None None None)) < 2 ^ 1024
   \<and> reconnectDelay (options (constructor [] 0 None None None None)) = 3000
   \<and> maxReconnectDelay (options (constructor [] 0 None None None None)) = 60000
   \<and> reconnectAttempts (step SocketClose
        (run [SocketClose, ReconnectFired (Socket []), SocketClose]
           (constructor [] 0 None None None None))) = 3
   \<and> reconnectTimer (step SocketClose
        (run [SocketClose, ReconnectFired (Socket []), SocketClose]
           (constructor [] 0 None None None None))) = Some (Finite 12000)
   \<and> last (trace (step SocketClose
        (run [SocketClose, ReconnectFired (Socket []), SocketClose]
           (constructor [] 0 None None None None)))) = Emit (Reconnecting 3 (Finite 12000))"
proof -
  define s where "s = constructor [] 0 None None None None"
  define es where "es = [SocketClose, ReconnectFired (Socket []), SocketClose]"
  have h: "\<not> intentionalDisconnect s" "reconnectAttempts s = 0"
    "SocketConnect \<notin> set es" "CallDisconnect \<notin> set es"
    "count_list es SocketClose = 2" "(2 :: nat) < 2 ^ 53"
    by (simp_all add: s_def es_def constructor_def)
  have o: "reconnectDelay (options s) = 3000" "maxReconnectDelay (options s) = 60000"
    by (simp_all add: s_def constructor_def)
  have p: "0 < reconnectDelay (options s)" "maxReconnectDelay (options s) < 2 ^ 1024"
    by (simp_all add: o)
  have p': "0 < reconnectDelay (options s) \<or> (2 :: nat) < 1024" using p(1) by simp
  note T = reconnect_backoff[OF h p' p(2)]
  note T1 = T[THEN conjunct1] and T2 = T[THEN conjunct2, THEN conjunct1]
    and T3 = T[THEN conjunct2, THEN conjunct2, THEN conjunct1]
  have m: "min (reconnectDelay (options s) * 2 ^ 2) (maxReconnectDelay (options s)) = 12000"
    by (simp add: o)
  from T2 have a: "reconnectAttempts (step SocketClose (run es s)) = 3" by simp
  from T3 have r: "reconnectTimer (step SocketClose (run es s)) = Some (Finite 12000)"
    unfolding m .
  have l: "last (trace (step SocketClose (run es s))) = Emit (Reconnecting 3 (Finite 12000))"
    unfolding T1 m by simp
  from h p o a r l show ?thesis unfolding s_def es_def by (intro conjI)
qed

text \<open>
  The claim C6 as it stands fails where the doubles leave the whole numbers. With the base
  delay 0 the formula gives the delay 0 for every attempt; but for the attempt 1024 the
  code computes 0 times \<open>Math.pow(2, 1024)\<close>, that is 0 times \<open>Infinity\<close>, and announces and
  arms the delay \<open>NaN\<close>.
\<close>

theorem reconnect_backoff_counterexample:
  "min (reconnectDelay (options (constructor [] 0 (Some 0) None None None)) * 2 ^ 1024)
       (maxReconnectDelay (options (constructor [] 0 (Some 0) None None None))) = 0
   \<and> reconnectTimer (step SocketClose
        (run (replicate 1024 SocketClose) (constructor [] 0 (Some 0) None None None))) = Some NaN
   \<and> last (trace (step SocketClose
        (run (replicate 1024 SocketClose) (constructor [] 0 (Some 0) None None None))))
       = Emit (Reconnecting 1025 NaN)"
proof -
  define s where "s = constructor [] 0 (Some 0) None None None"
  define es where "es = replicate 1024 SocketClose"
  have k: "count_list es SocketClose = 1024" unfolding es_def by (rule count_list_replicate)
  have h: "\<not> intentionalDisconnect s" "reconnectAttempts s = 0"
    and o: "reconnectDelay (options s) = 0" "maxReconnectDelay (options s) = 60000"
    by (simp_all add: s_def constructor_def)
  have e: "SocketConnect \<notin> set es" "CallDisconnect \<notin> set es" by (simp_all add: es_def)
  have "reconnectAttempts s + count_list es SocketClose \<le> 2 ^ 53" by (simp add: h k)
  from run_counter[OF e h(1) this]
  have c: "\<not> intentionalDisconnect (run es s)" "reconnectAttempts (run es s) = 1024"
    by (simp_all add: h k)
  have oo: "options (run es s) = options s" by (rule run_options)
  have d: "Math_min (js_times (reconnectDelay (options (run es s))) (Math_pow2 (reconnectAttempts (run es s))))
             (maxReconnectDelay (options (run es s))) = NaN"
    by (simp add: oo o c(2) Math_min_def js_times_def Math_pow2_def)
  have i: "js_incr (reconnectAttempts (run es s)) = 1025" by (simp add: c(2) js_incr_def)
  have a: "min (reconnectDelay (options s) * 2 ^ 1024) (maxReconnectDelay (options s)) = 0"
    by (simp add: o)
  have r: "reconnectTimer (step SocketClose (run es s)) = Some NaN"
    using close_reconnect(2)[OF c(1)] d by simp
  have "trace (step SocketClose (run es s))
          = (trace (run es s) @ map (\<lambda>t. Reject t ''Connection closed'') (pendingIds (run es s))
             @ (if connected (run es s) then [Emit Disconnected] else []))
            @ [Emit (Reconnecting 1025 NaN)]"
    using onSocketClose_trace_eq[of "run es s"] c(1) by (simp only: step.simps d i if_False append_assoc)
  then have l: "last (trace (step SocketClose (run es s))) = Emit (Reconnecting 1025 NaN)"
    by (simp only: last_snoc)
  from a r l show ?thesis unfolding s_def es_def by blast
qed

section \<open>Command timeout: the handler\<close>

lemma timeoutFired_cases:
  "(map_option timeout (currentCommand s) = Some t
      \<and> (\<exists>s1. currentCommand s1 = None \<and> trace s1 = trace s
             \<and> (commandQueue s = [] \<longrightarrow> commandQueue s1 = [])
             \<and> timeoutFired t s = emit (Reject t ''Command timeout'') (processQueue s1)))
   \<or> (map_option timeout (currentCommand s) \<noteq> Some t
      \<and> currentCommand (timeoutFired t s) = currentCommand s
      \<and> trace (timeoutFired t s) = trace s @ [Reject t ''Command timeout''])"
proof -
  define s1 where "s1 = (case findIndex (\<lambda>q. timeout q = t) (commandQueue s) of
               None \<Rightarrow> s
             | Some idx \<Rightarrow> s\<lparr>commandQueue := take idx (commandQueue s) @ drop (idx + 1) (commandQueue s)\<rparr>)"
  define B where "B \<longleftrightarrow> map_option timeout (currentCommand s1) = Some t"
  have tf: "timeoutFired t s
      = emit (Reject t ''Command timeout'') (if B then processQueue (s1\<lparr>currentCommand := None\<rparr>) else s1)"
    by (simp only: timeoutFired_def Let_def B_def s1_def)
  have f: "trace s1 = trace s" "currentCommand s1 = currentCommand s"
    "commandQueue s = [] \<longrightarrow> commandQueue s1 = []"
    by (cases "findIndex (\<lambda>q. timeout q = t) (commandQueue s)"; simp add: s1_def)+
  show ?thesis
  proof (cases B)
    case True
    then have "timeoutFired t s = emit (Reject t ''Command timeout'') (processQueue (s1\<lparr>currentCommand := None\<rparr>))"
      by (simp add: tf)
    moreover have "map_option timeout (currentCommand s) = Some t" using True f by (simp add: B_def)
    moreover have "currentCommand (s1\<lparr>currentCommand := None\<rparr>) = None"
      "trace (s1\<lparr>currentCommand := None\<rparr>) = trace s"
      "commandQueue s = [] \<longrightarrow> commandQueue (s1\<lparr>currentCommand := None\<rparr>) = []"
      using f by simp_all
    ultimately show ?thesis by blast
  next
    case False
    then have "timeoutFired t s = emit (Reject t ''Command timeout'') s1" by (simp add: tf)
    moreover have "map_option timeout (currentCommand s) \<noteq> Some t" using False f by (simp add: B_def)
    ultimately show ?thesis using f by (simp add: emit_def)
  qed
qed

lemma processQueue_idle: "commandQueue s = [] \<Longrightarrow> processQueue s = s"
  by (subst processQueue.simps) simp

lemma processQueue_busy: "currentCommand s = Some c \<Longrightarrow> processQueue s = s"
  by (subst processQueue.simps) simp

lemma prefix_drop: "prefix xs ys \<Longrightarrow> ys = xs @ drop (length xs) ys"
  by (auto simp: prefix_def)

lemma timeout_step:
  assumes "currentCommand s = Some c" and "timeout c \<in> fst ` set (timers s)"
  shows "\<exists>ws. trace (step (TimeoutFired (timeout c)) s)
            = trace s @ ws @ [Reject (timeout c) ''Command timeout'']"
    and "commandQueue s = [] \<longrightarrow> currentCommand (step (TimeoutFired (timeout c)) s) = None"
proof -
  let ?s0 = "clearTimeout (timeout c) s"
  have st: "step (TimeoutFired (timeout c)) s = timeoutFired (timeout c) ?s0"
    using assms(2) by simp
  have c0: "map_option timeout (currentCommand ?s0) = Some (timeout c)"
    "trace ?s0 = trace s" "commandQueue ?s0 = commandQueue s"
    using assms(1) by (simp_all add: clearTimeout_def)
  from timeoutFired_cases[of ?s0 "timeout c"] c0(1)
  obtain s1 where s1: "currentCommand s1 = None" "trace s1 = trace ?s0"
    "commandQueue ?s0 = [] \<longrightarrow> commandQueue s1 = []"
    "timeoutFired (timeout c) ?s0 = emit (Reject (timeout c) ''Command timeout'') (processQueue s1)"
    by blast
  have "prefix (trace s1) (trace (processQueue s1))" by (rule processQueue_trace)
  then obtain ws where "trace (processQueue s1) = trace s @ ws"
    using s1(2) c0(2) by (auto simp: prefix_def)
  then have "trace (step (TimeoutFired (timeout c)) s) = trace s @ ws @ [Reject (timeout c) ''Command timeout'']"
    unfolding st s1(4) by (simp add: emit_def)
  then show "\<exists>ws. trace (step (TimeoutFired (timeout c)) s)
            = trace s @ ws @ [Reject (timeout c) ''Command timeout'']" by blast
  show "commandQueue s = [] \<longrightarrow> currentCommand (step (TimeoutFired (timeout c)) s) = None"
  proof
    assume "commandQueue s = []"
    then have "commandQueue s1 = []" using s1(3) c0(3) by simp
    then have "processQueue s1 = s1" by (rule processQueue_idle)
    then show "currentCommand (step (TimeoutFired (timeout c)) s) = None"
      unfolding st s1(4) by (simp add: s1(1) emit_def)
  qed
qed

lemma parseLoop_idle:
  "currentCommand s = None
   \<Longrightarrow> currentCommand (parseLoop s) = None \<and> settles (trace (parseLoop s)) = settles (trace s)"
proof -
  have "currentCommand s = None \<longrightarrow>
      currentCommand (parseLoop s) = None \<and> settles (trace (parseLoop s)) = settles (trace s)"
  proof (rule parseLoop_rule[where R = "\<lambda>s s'. currentCommand s = None \<longrightarrow>
      currentCommand s' = None \<and> settles (trace s') = settles (trace s)"])
    fix s :: JblConnection and r n s'
    let ?h = "handleResponse r (s\<lparr>receiveBuffer := drop n (receiveBuffer s)\<rparr>)"
    assume ih: "currentCommand ?h = None \<longrightarrow> currentCommand s' = None \<and> settles (trace s') = settles (trace ?h)"
    show "currentCommand s = None \<longrightarrow> currentCommand s' = None \<and> settles (trace s') = settles (trace s)"
    proof
      assume c: "currentCommand s = None"
      then have "currentCommand ?h = None" "settles (trace ?h) = settles (trace s)"
        by (simp_all add: handleResponse_def emit_def)
      with ih show "currentCommand s' = None \<and> settles (trace s') = settles (trace s)" by simp
    qed
  qed simp
  then show "currentCommand s = None
   \<Longrightarrow> currentCommand (parseLoop s) = None \<and> settles (trace (parseLoop s)) = settles (trace s)"
    by blast
qed

lemma onData_idle:
  assumes "currentCommand s = None" and "parseResponse (receiveBuffer s @ d) = Some (r, n)"
  shows "\<exists>rest. trace (onData d s) = trace s @ Emit (Status r) # rest"
    and "settles (trace (onData d s)) = settles (trace s)"
proof -
  have "trace (handleResponse r (s\<lparr>receiveBuffer := drop n (receiveBuffer s @ d)\<rparr>))
          = trace s @ [Emit (Status r)]"
    using assms(1) by (simp add: handleResponse_def emit_def)
  with onData_first[OF assms(2)]
  have "prefix (trace s @ [Emit (Status r)]) (trace (onData d s))" by simp
  then show "\<exists>rest. trace (onData d s) = trace s @ Emit (Status r) # rest"
    by (auto simp: prefix_def)
  show "settles (trace (onData d s)) = settles (trace s)"
    using parseLoop_idle[of "s\<lparr>receiveBuffer := receiveBuffer s @ d\<rparr>"] assms(1)
    by (simp add: onData_def Let_def)
qed

section \<open>One command in flight\<close>

lemma writes_append [simp]: "writes (xs @ ys) = writes xs @ writes ys"
  by (simp add: writes_def)

lemma writes_Nil [simp]: "writes [] = []"
  by (simp add: writes_def)

lemma writes_Cons [simp]: "writes (x # xs) = written x @ writes xs"
  by (simp add: writes_def)

lemma processQueue_promote:
  assumes "currentCommand s = None" and "commandQueue s = q # qs" and "connected s"
    and "socket s = Some sock" and "fst (socket_write sock (buffer q)) = None"
  shows "processQueue s
           = emit (Write (buffer q)) (promoted s q qs (snd (socket_write sock (buffer q))))"
proof -
  obtain sock' where w: "socket_write sock (buffer q) = (None, sock')"
    using assms(5) by (cases "socket_write sock (buffer q)") simp
  show ?thesis
    by (subst processQueue.simps) (simp add: assms(1-4) w Let_def promoted_def)
qed

lemma enqueue_busy:
  assumes "currentCommand s = Some c"
  shows "enqueue b s = s\<lparr>nextTimeout := nextTimeout s + 1,
              timers := timers s @ [(nextTimeout s, commandTimeout (options s))],
              commandQueue := commandQueue s @ [\<lparr>buffer = b, timeout = nextTimeout s\<rparr>]\<rparr>"
  using assms by (simp add: enqueue_def Let_def processQueue_busy)

lemma in_flight_step:
  assumes c: "currentCommand s = Some c"
  shows "(currentCommand (step e s) = Some c \<and> writes (trace (step e s)) = writes (trace s))
       \<or> timeout c \<in> set (settles (drop (length (trace s)) (trace (step e s))))"
proof (cases e)
  case (CallEnqueue b)
  then show ?thesis using c by (simp add: enqueue_busy)
next
  case (CallConnect sock)
  then show ?thesis using c by (simp add: connect_def emit_def)
next
  case CallDisconnect
  have "trace (disconnect s) = trace s @ map (\<lambda>t. Reject t ''Disconnecting'') (pendingIds s)"
    by (rule disconnect_fields)
  moreover have "timeout c \<in> set (pendingIds s)" using c by (simp add: pendingIds_def)
  ultimately show ?thesis using CallDisconnect by simp
next
  case SocketConnect
  then show ?thesis using c
    by (simp add: onSocketConnect_def startHeartbeat_def stopHeartbeat_def emit_def)
next
  case (SocketData d)
  show ?thesis
  proof (cases "parseResponse (receiveBuffer s @ d)")
    case None
    then have "parseLoop (s\<lparr>receiveBuffer := receiveBuffer s @ d\<rparr>) = s\<lparr>receiveBuffer := receiveBuffer s @ d\<rparr>"
      by (subst parseLoop.simps) simp
    then show ?thesis using c SocketData by (simp add: onData_def Let_def)
  next
    case (Some x)
    obtain r n where x: "x = (r, n)" by (cases x)
    let ?h = "handleResponse r (s\<lparr>receiveBuffer := drop n (receiveBuffer s @ d)\<rparr>)"
    have "\<exists>X. trace ?h = trace s @ [X] \<and> settled X = [timeout c]"
      using c by (cases "isError r") (simp_all add: handleResponse_def emit_def clearTimeout_def Let_def)
    then obtain X where X: "trace ?h = trace s @ [X]" "settled X = [timeout c]" by blast
    from onData_first[OF Some[unfolded x]] X(1)
    obtain rest where "trace (onData d s) = trace s @ X # rest" by (auto simp: prefix_def)
    then show ?thesis using X(2) SocketData by simp
  qed
next
  case (SocketError err)
  then show ?thesis using c by (simp add: onSocketError_def emit_def)
next
  case SocketClose
  from onSocketClose_fields(1)[of s] obtain evs where
    "trace (onSocketClose s) = trace s @ map (\<lambda>t. Reject t ''Connection closed'') (pendingIds s) @ evs"
    by blast
  moreover have "timeout c \<in> set (pendingIds s)" using c by (simp add: pendingIds_def)
  ultimately show ?thesis using SocketClose by simp
next
  case (TimeoutFired t)
  show ?thesis
  proof (cases "t \<in> fst ` set (timers s)")
    case False
    then show ?thesis using c TimeoutFired by simp
  next
    case True
    show ?thesis
    proof (cases "t = timeout c")
      case tc: True
      have "timeout c \<in> fst ` set (timers s)" using True tc by simp
      from timeout_step(1)[OF c this] obtain ws where
        "trace (step (TimeoutFired (timeout c)) s) = trace s @ ws @ [Reject (timeout c) ''Command timeout'']"
        by blast
      then show ?thesis using TimeoutFired tc by simp
    next
      case False
      let ?s0 = "clearTimeout t s"
      have "map_option timeout (currentCommand ?s0) \<noteq> Some t"
        using c False by (simp add: clearTimeout_def)
      with timeoutFired_cases[of ?s0 t]
      have "currentCommand (timeoutFired t ?s0) = currentCommand ?s0"
        "trace (timeoutFired t ?s0) = trace ?s0 @ [Reject t ''Command timeout'']" by blast+
      moreover have "currentCommand ?s0 = Some c" "trace ?s0 = trace s"
        using c by (simp_all add: clearTimeout_def)
      moreover have "step e s = timeoutFired t ?s0" using TimeoutFired True by simp
      ultimately show ?thesis by simp
    qed
  qed
next
  case KickFired
  have "processQueue (s\<lparr>kicks := kicks s - 1\<rparr>) = s\<lparr>kicks := kicks s - 1\<rparr>"
    using c by (intro processQueue_busy[of _ c]) simp
  then show ?thesis using c KickFired by simp
next
  case HeartbeatFired
  then show ?thesis using c by (simp add: heartbeatFired_def query_def enqueue_busy)
next
  case (ReconnectFired sock)
  then show ?thesis using c by (simp add: reconnectFired_def connect_def emit_def)
qed

text \<open>
  C2. The slot \<open>currentCommand\<close> holds at most one command. While a command is in flight,
  every event either leaves it in flight and writes nothing to the socket, or settles it
  (a response, an error, its timeout, a disconnect). Promotion takes the head of the queue
  and writes its bytes. So three commands submitted to an idle, connected connection write
  exactly the first one's bytes, leave it in flight, and keep the second and third queued in
  submission order.
\<close>

theorem one_command_in_flight:
  "(currentCommand s = Some c \<longrightarrow>
      (currentCommand (step e s) = Some c \<and> writes (trace (step e s)) = writes (trace s))
      \<or> timeout c \<in> set (settles (drop (length (trace s)) (trace (step e s)))))
   \<and> (currentCommand s = None \<and> commandQueue s = q # qs \<and> connected s \<and> socket s = Some sock
        \<and> fst (socket_write sock (buffer q)) = None \<longrightarrow>
        currentCommand (processQueue s) = Some q \<and> commandQueue (processQueue s) = qs
        \<and> trace (processQueue s) = trace s @ [Write (buffer q)])
   \<and> (currentCommand s = None \<and> commandQueue s = [] \<and> connected s \<and> socket s = Some sock
        \<and> fst (socket_write sock b1) = None \<longrightarrow>
        trace (run [CallEnqueue b1, CallEnqueue b2, CallEnqueue b3] s) = trace s @ [Write b1]
        \<and> currentCommand (run [CallEnqueue b1, CallEnqueue b2, CallEnqueue b3] s)
            = Some \<lparr>buffer = b1, timeout = nextTimeout s\<rparr>
        \<and> commandQueue (run [CallEnqueue b1, CallEnqueue b2, CallEnqueue b3] s)
            = [\<lparr>buffer = b2, timeout = nextTimeout s + 1\<rparr>, \<lparr>buffer = b3, timeout = nextTimeout s + 2\<rparr>])"
proof (intro conjI impI)
  assume "currentCommand s = Some c"
  then show "(currentCommand (step e s) = Some c \<and> writes (trace (step e s)) = writes (trace s))
      \<or> timeout c \<in> set (settles (drop (length (trace s)) (trace (step e s))))"
    by (rule in_flight_step)
next
  assume a: "currentCommand s = None \<and> commandQueue s = q # qs \<and> connected s \<and> socket s = Some sock
        \<and> fst (socket_write sock (buffer q)) = None"
  then have p: "processQueue s
           = emit (Write (buffer q)) (promoted s q qs (snd (socket_write sock (buffer q))))"
    by (intro processQueue_promote) simp_all
  show "currentCommand (processQueue s) = Some q" "commandQueue (processQueue s) = qs"
    "trace (processQueue s) = trace s @ [Write (buffer q)]"
    by (simp_all add: p emit_def promoted_def)
next
  assume a: "currentCommand s = None \<and> commandQueue s = [] \<and> connected s \<and> socket s = Some sock
        \<and> fst (socket_write sock b1) = None"
  let ?q1 = "\<lparr>buffer = b1, timeout = nextTimeout s\<rparr>"
  let ?s0 = "s\<lparr>nextTimeout := nextTimeout s + 1,
              timers := timers s @ [(nextTimeout s, commandTimeout (options s))],
              commandQueue := commandQueue s @ [?q1]\<rparr>"
  have "processQueue ?s0 = emit (Write (buffer ?q1)) (promoted ?s0 ?q1 [] (snd (socket_write sock (buffer ?q1))))"
    using a by (intro processQueue_promote) simp_all
  then have e1: "enqueue b1 s = emit (Write b1) (promoted ?s0 ?q1 [] (snd (socket_write sock b1)))"
    by (simp add: enqueue_def Let_def)
  let ?s1 = "enqueue b1 s"
  have f1: "currentCommand ?s1 = Some ?q1" "commandQueue ?s1 = []" "nextTimeout ?s1 = nextTimeout s + 1"
    "trace ?s1 = trace s @ [Write b1]"
    by (simp_all add: e1 emit_def promoted_def)
  let ?s2 = "enqueue b2 ?s1"
  have f2: "currentCommand ?s2 = Some ?q1" "commandQueue ?s2 = [\<lparr>buffer = b2, timeout = nextTimeout s + 1\<rparr>]"
    "nextTimeout ?s2 = nextTimeout s + 2" "trace ?s2 = trace s @ [Write b1]"
    using f1 by (simp_all add: enqueue_busy[OF f1(1)])
  let ?s3 = "enqueue b3 ?s2"
  have f3: "currentCommand ?s3 = Some ?q1"
    "commandQueue ?s3 = [\<lparr>buffer = b2, timeout = nextTimeout s + 1\<rparr>, \<lparr>buffer = b3, timeout = nextTimeout s + 2\<rparr>]"
    "trace ?s3 = trace s @ [Write b1]"
    using f2 by (simp_all add: enqueue_busy[OF f2(1)])
  have r: "run [CallEnqueue b1, CallEnqueue b2, CallEnqueue b3] s = ?s3" by simp
  show "trace (run [CallEnqueue b1, CallEnqueue b2, CallEnqueue b3] s) = trace s @ [Write b1]"
    "currentCommand (run [CallEnqueue b1, CallEnqueue b2, CallEnqueue b3] s) = Some ?q1"
    "commandQueue (run [CallEnqueue b1, CallEnqueue b2, CallEnqueue b3] s)
            = [\<lparr>buffer = b2, timeout = nextTimeout s + 1\<rparr>, \<lparr>buffer = b3, timeout = nextTimeout s + 2\<rparr>]"
    unfolding r using f3 by simp_all
qed

theorem one_command_in_flight_witness:
  "currentCommand ((constructor [] 0 None None None None)\<lparr>currentCommand := Some \<lparr>buffer = [1], timeout = 2\<rparr>\<rparr>) = Some \<lparr>buffer = [1], timeout = 2\<rparr>
   \<and> ((currentCommand (step (CallEnqueue [9]) ((constructor [] 0 None None None None)\<lparr>currentCommand := Some \<lparr>buffer = [1], timeout = 2\<rparr>\<rparr>)) = Some \<lparr>buffer = [1], timeout = 2\<rparr>
         \<and> writes (trace (step (CallEnqueue [9]) ((constructor [] 0 None None None None)\<lparr>currentCommand := Some \<lparr>buffer = [1], timeout = 2\<rparr>\<rparr>))) = writes (trace ((constructor [] 0 None None None None)\<lparr>currentCommand := Some \<lparr>buffer = [1], timeout = 2\<rparr>\<rparr>)))
        \<or> timeout \<lparr>buffer = [1], timeout = 2\<rparr>
             \<in> set (settles (drop (length (trace ((constructor [] 0 None None None None)\<lparr>currentCommand := Some \<lparr>buffer = [1], timeout = 2\<rparr>\<rparr>))) (trace (step (CallEnqueue [9]) ((constructor [] 0 None None None None)\<lparr>currentCommand := Some \<lparr>buffer = [1], timeout = 2\<rparr>\<rparr>))))))
   \<and> currentCommand ((constructor [] 0 None None None None)\<lparr>socket := Some (Socket []), commandQueue := [\<lparr>buffer = [1], timeout = 2\<rparr>], connected := True\<rparr>) = None \<and> commandQueue ((constructor [] 0 None None None None)\<lparr>socket := Some (Socket []), commandQueue := [\<lparr>buffer = [1], timeout = 2\<rparr>], connected := True\<rparr>) = [\<lparr>buffer = [1], timeout = 2\<rparr>] \<and> connected ((constructor [] 0 None None None None)\<lparr>socket := Some (Socket []), commandQueue := [\<lparr>buffer = [1], timeout = 2\<rparr>], connected := True\<rparr>)
   \<and> socket ((constructor [] 0 None None None None)\<lparr>socket := Some (Socket []), commandQueue := [\<lparr>buffer = [1], timeout = 2\<rparr>], connected := True\<rparr>) = Some (Socket [])
   \<and> fst (socket_write (Socket []) (buffer \<lparr>buffer = [1], timeout = 2\<rparr>)) = None
   \<and> currentCommand (processQueue ((constructor [] 0 None None None None)\<lparr>socket := Some (Socket []), commandQueue := [\<lparr>buffer = [1], timeout = 2\<rparr>], connected := True\<rparr>)) = Some \<lparr>buffer = [1], timeout = 2\<rparr>
   \<and> trace (processQueue ((constructor [] 0 None None None None)\<lparr>socket := Some (Socket []), commandQueue := [\<lparr>buffer = [1], timeout = 2\<rparr>], connected := True\<rparr>)) = [Write [1]]
   \<and> currentCommand ((constructor [] 0 None None None None)\<lparr>socket := Some (Socket []), connected := True\<rparr>) = None \<and> commandQueue ((constructor [] 0 None None None None)\<lparr>socket := Some (Socket []), connected := True\<rparr>) = [] \<and> connected ((constructor [] 0 None None None None)\<lparr>socket := Some (Socket []), connected := True\<rparr>) \<and> socket ((constructor [] 0 None None None None)\<lparr>socket := Some (Socket []), connected := True\<rparr>) = Some (Socket [])
   \<and> fst (socket_write (Socket []) [1]) = None
   \<and> trace (run [CallEnqueue [1], CallEnqueue [2], CallEnqueue [3]] ((constructor [] 0 None None None None)\<lparr>socket := Some (Socket []), connected := True\<rparr>)) = [Write [1]]
   \<and> commandQueue (run [CallEnqueue [1], CallEnqueue [2], CallEnqueue [3]] ((constructor [] 0 None None None None)\<lparr>socket := Some (Socket []), connected := True\<rparr>))
       = [\<lparr>buffer = [2], timeout = 0 + 1\<rparr>, \<lparr>buffer = [3], timeout = 0 + 2\<rparr>]"
proof -
  let ?c = "\<lparr>buffer = [1], timeout = 2\<rparr>"
  let ?SA = "((constructor [] 0 None None None None)\<lparr>currentCommand := Some \<lparr>buffer = [1], timeout = 2\<rparr>\<rparr>)"
  let ?SB = "((constructor [] 0 None None None None)\<lparr>socket := Some (Socket []), commandQueue := [\<lparr>buffer = [1], timeout = 2\<rparr>], connected := True\<rparr>)"
  let ?S0 = "((constructor [] 0 None None None None)\<lparr>socket := Some (Socket []), connected := True\<rparr>)"
  have a: "currentCommand ?SA = Some ?c" by simp
  have b: "currentCommand ?SB = None \<and> commandQueue ?SB = [?c] \<and> connected ?SB
      \<and> socket ?SB = Some (Socket []) \<and> fst (socket_write (Socket []) (buffer ?c)) = None"
    by (simp add: constructor_def)
  have c: "currentCommand ?S0 = None \<and> commandQueue ?S0 = [] \<and> connected ?S0 \<and> socket ?S0 = Some (Socket [])
      \<and> fst (socket_write (Socket []) [1]) = None"
    by (simp add: constructor_def)
  have t: "trace ?SB = []" "trace ?S0 = []" "nextTimeout ?S0 = 0"
    by (simp_all add: constructor_def)
  from one_command_in_flight[where s = "?SA" and c = "?c" and e = "CallEnqueue [9]"] a
  have 1: "(currentCommand (step (CallEnqueue [9]) ?SA) = Some ?c
         \<and> writes (trace (step (CallEnqueue [9]) ?SA)) = writes (trace ?SA))
        \<or> timeout ?c \<in> set (settles (drop (length (trace ?SA)) (trace (step (CallEnqueue [9]) ?SA))))"
    by blast
  from one_command_in_flight[where s = "?SB" and q = "?c" and qs = "[]" and sock = "Socket []"] b
  have "currentCommand (processQueue ?SB) = Some ?c
      \<and> trace (processQueue ?SB) = trace ?SB @ [Write (buffer ?c)]"
    by blast
  then have 2: "currentCommand (processQueue ?SB) = Some ?c \<and> trace (processQueue ?SB) = [Write [1]]"
    unfolding t by simp
  from one_command_in_flight[where s = "?S0" and sock = "Socket []" and ?b1.0 = "[1]"
      and ?b2.0 = "[2]" and ?b3.0 = "[3]"] c
  have "trace (run [CallEnqueue [1], CallEnqueue [2], CallEnqueue [3]] ?S0) = trace ?S0 @ [Write [1]]
     \<and> commandQueue (run [CallEnqueue [1], CallEnqueue [2], CallEnqueue [3]] ?S0)
       = [\<lparr>buffer = [2], timeout = nextTimeout ?S0 + 1\<rparr>, \<lparr>buffer = [3], timeout = nextTimeout ?S0 + 2\<rparr>]"
    by blast
  then have 3: "trace (run [CallEnqueue [1], CallEnqueue [2], CallEnqueue [3]] ?S0) = [Write [1]]
     \<and> commandQueue (run [CallEnqueue [1], CallEnqueue [2], CallEnqueue [3]] ?S0)
       = [\<lparr>buffer = [2], timeout = 0 + 1\<rparr>, \<lparr>buffer = [3], timeout = 0 + 2\<rparr>]"
    unfolding t by simp
  from a 1 b 2 c 3 show ?thesis by blast
qed

section \<open>Armed timers\<close>

lemma timer_fields:
  assumes "currentCommand s' = currentCommand s" "commandQueue s' = commandQueue s"
    "timers s' = timers s" "options s' = options s"
  shows "timer_inv s' = timer_inv s"
  using assms by (simp add: timer_inv_def pendingIds_def)

lemma timer_idle: "currentCommand s = None \<Longrightarrow> commandQueue s = [] \<Longrightarrow> timer_inv s"
  by (simp add: timer_inv_def pendingIds_def)

lemma writeFailed_invs:
  assumes "currentCommand s = None" "commandQueue s = q # qs" "queue_inv s" "timer_inv s"
  shows "queue_inv (writeFailed s q qs sock' err)" and "timer_inv (writeFailed s q qs sock' err)"
proof -
  show "queue_inv (writeFailed s q qs sock' err)"
    using assms(1-3)
    by (auto simp: queue_inv_def pendingIds_def emit_def clearTimeout_def promoted_def writeFailed_def)
  have p: "pendingIds s = timeout q # map timeout qs" using assms(1,2) by (simp add: pendingIds_def)
  have d: "timeout q \<notin> set (map timeout qs)" using assms(3) by (simp add: queue_inv_def p)
  have "(t, commandTimeout (options s)) \<in> set (filter (\<lambda>x. fst x \<noteq> timeout q) (timers s))"
    if "t \<in> set (map timeout qs)" for t
  proof -
    from that d have "t \<noteq> timeout q" by blast
    moreover have "t \<in> set (pendingIds s)" using that by (simp add: p)
    then have "(t, commandTimeout (options s)) \<in> set (timers s)"
      using assms(4) unfolding timer_inv_def by blast
    ultimately show ?thesis by simp
  qed
  then show "timer_inv (writeFailed s q qs sock' err)"
    by (simp add: timer_inv_def pendingIds_def emit_def clearTimeout_def promoted_def writeFailed_def)
qed

lemma processQueue_timer: "queue_inv s \<Longrightarrow> timer_inv s \<Longrightarrow> timer_inv (processQueue s)"
proof -
  have "queue_inv s \<and> timer_inv s \<longrightarrow> timer_inv (processQueue s)"
  proof (rule processQueue_rule[where R = "\<lambda>s s'. queue_inv s \<and> timer_inv s \<longrightarrow> timer_inv s'"])
    fix s show "queue_inv s \<and> timer_inv s \<longrightarrow> timer_inv s" by simp
  next
    fix s :: JblConnection and q qs sock sock'
    assume "currentCommand s = None" "commandQueue s = q # qs"
    then show "queue_inv s \<and> timer_inv s \<longrightarrow> timer_inv (emit (Write (buffer q)) (promoted s q qs sock'))"
      by (simp add: timer_inv_def pendingIds_def emit_def promoted_def)
  next
    fix s :: JblConnection and q qs sock sock' err s'
    assume c: "currentCommand s = None" "commandQueue s = q # qs"
      and r: "queue_inv (writeFailed s q qs sock' err) \<and> timer_inv (writeFailed s q qs sock' err)
              \<longrightarrow> timer_inv s'"
    show "queue_inv s \<and> timer_inv s \<longrightarrow> timer_inv s'"
      using r writeFailed_invs[OF c] by blast
  qed
  then show "queue_inv s \<Longrightarrow> timer_inv s \<Longrightarrow> timer_inv (processQueue s)" by blast
qed

lemma pushed_invs:
  assumes "queue_inv s"
  shows "queue_inv (s\<lparr>nextTimeout := nextTimeout s + 1,
              timers := timers s @ [(nextTimeout s, commandTimeout (options s))],
              commandQueue := commandQueue s @ [\<lparr>buffer = b, timeout = nextTimeout s\<rparr>]\<rparr>)"
    and "timer_inv s \<Longrightarrow> timer_inv (s\<lparr>nextTimeout := nextTimeout s + 1,
              timers := timers s @ [(nextTimeout s, commandTimeout (options s))],
              commandQueue := commandQueue s @ [\<lparr>buffer = b, timeout = nextTimeout s\<rparr>]\<rparr>)"
proof -
  let ?s1 = "s\<lparr>nextTimeout := nextTimeout s + 1,
              timers := timers s @ [(nextTimeout s, commandTimeout (options s))],
              commandQueue := commandQueue s @ [\<lparr>buffer = b, timeout = nextTimeout s\<rparr>]\<rparr>"
  have p: "pendingIds ?s1 = pendingIds s @ [nextTimeout s]"
    by (simp add: pendingIds_def)
  have fresh: "nextTimeout s \<notin> set (pendingIds s)" "nextTimeout s \<notin> set (settles (trace s))"
    using inv_less[OF assms, of "nextTimeout s"] by auto
  have "distinct (pendingIds ?s1 @ settles (trace ?s1))"
    using assms fresh unfolding p by (simp add: queue_inv_def)
  moreover have "\<forall>t \<in> set (pendingIds ?s1 @ settles (trace ?s1)). t < nextTimeout ?s1"
    using assms unfolding p by (auto simp: queue_inv_def less_Suc_eq)
  moreover have "fst ` set (timers ?s1) \<subseteq> set (pendingIds ?s1)"
    using assms unfolding p by (auto simp: queue_inv_def)
  ultimately show "queue_inv ?s1" unfolding queue_inv_def by blast
  show "timer_inv ?s1" if "timer_inv s"
    using that unfolding timer_inv_def p by auto
qed

lemma enqueue_timer: "queue_inv s \<Longrightarrow> timer_inv s \<Longrightarrow> timer_inv (enqueue b s)"
  unfolding enqueue_def Let_def by (intro processQueue_timer pushed_invs)

lemma handleResponse_timer: "queue_inv s \<Longrightarrow> timer_inv s \<Longrightarrow> timer_inv (handleResponse r s)"
proof (cases "currentCommand s")
  case None
  assume "timer_inv s"
  then show ?thesis using None by (simp add: handleResponse_def timer_inv_def pendingIds_def emit_def)
next
  case (Some cur)
  assume i: "queue_inv s" and t: "timer_inv s"
  have p: "pendingIds s = timeout cur # map timeout (commandQueue s)"
    using Some by (simp add: pendingIds_def)
  have d: "timeout cur \<notin> set (map timeout (commandQueue s))" using i by (simp add: queue_inv_def p)
  have "(x, commandTimeout (options s)) \<in> set (filter (\<lambda>x. fst x \<noteq> timeout cur) (timers s))"
    if "x \<in> set (map timeout (commandQueue s))" for x
  proof -
    from that d have "x \<noteq> timeout cur" by blast
    moreover have "x \<in> set (pendingIds s)" using that by (simp add: p)
    then have "(x, commandTimeout (options s)) \<in> set (timers s)"
      using t unfolding timer_inv_def by blast
    ultimately show ?thesis by simp
  qed
  then show ?thesis using Some
    by (simp add: handleResponse_def timer_inv_def pendingIds_def emit_def clearTimeout_def Let_def)
qed

lemma timer_receiveBuffer [simp]: "timer_inv (s\<lparr>receiveBuffer := b\<rparr>) = timer_inv s"
  by (simp add: timer_inv_def pendingIds_def)

lemma parseLoop_timer: "queue_inv s \<Longrightarrow> timer_inv s \<Longrightarrow> timer_inv (parseLoop s)"
proof -
  have "queue_inv s \<and> timer_inv s \<longrightarrow> timer_inv (parseLoop s)"
    by (rule parseLoop_rule[where R = "\<lambda>s s'. queue_inv s \<and> timer_inv s \<longrightarrow> timer_inv s'"])
       (simp_all add: handleResponse_inv handleResponse_timer)
  then show "queue_inv s \<Longrightarrow> timer_inv s \<Longrightarrow> timer_inv (parseLoop s)" by blast
qed

lemma onData_timer: "queue_inv s \<Longrightarrow> timer_inv s \<Longrightarrow> timer_inv (onData d s)"
proof -
  assume "queue_inv s" "timer_inv s"
  then have "timer_inv (parseLoop (s\<lparr>receiveBuffer := receiveBuffer s @ d\<rparr>))"
    by (simp add: parseLoop_timer)
  then show ?thesis by (simp add: onData_def Let_def)
qed

lemma timeoutFired_timer:
  assumes i: "queue_inv s" and ti: "timer_inv s" and t: "t \<in> fst ` set (timers s)"
  shows "timer_inv (timeoutFired t (clearTimeout t s))"
proof -
  define s0 where "s0 = clearTimeout t s"
  define s1 where "s1 = (case findIndex (\<lambda>q. timeout q = t) (commandQueue s0) of
               None \<Rightarrow> s0
             | Some idx \<Rightarrow> s0\<lparr>commandQueue := take idx (commandQueue s0) @ drop (idx + 1) (commandQueue s0)\<rparr>)"
  define B where "B \<longleftrightarrow> map_option timeout (currentCommand s1) = Some t"
  define u where "u = (if B then s1\<lparr>currentCommand := None\<rparr> else s1)"
  define v where "v = (if B then processQueue u else u)"
  have s0: "commandQueue s0 = commandQueue s" "currentCommand s0 = currentCommand s"
    "trace s0 = trace s" "nextTimeout s0 = nextTimeout s" "timers s0 = filter (\<lambda>x. fst x \<noteq> t) (timers s)"
    "options s0 = options s"
    by (simp_all add: s0_def clearTimeout_def)
  have "timeoutFired t s0
      = emit (Reject t ''Command timeout'') (if B then processQueue (s1\<lparr>currentCommand := None\<rparr>) else s1)"
    by (simp only: timeoutFired_def Let_def B_def s1_def)
  also have "(if B then processQueue (s1\<lparr>currentCommand := None\<rparr>) else s1) = v"
    by (simp add: v_def u_def)
  finally have tf: "timeoutFired t (clearTimeout t s) = emit (Reject t ''Command timeout'') v"
    by (simp only: s0_def)
  have q1: "map timeout (commandQueue s1) = remove1 t (map timeout (commandQueue s))"
    using splice_remove1[where t = t and qs = "commandQueue s"]
    by (cases "findIndex (\<lambda>q. timeout q = t) (commandQueue s)") (simp_all add: s1_def s0)
  have c1: "currentCommand s1 = currentCommand s"
    by (cases "findIndex (\<lambda>q. timeout q = t) (commandQueue s)") (simp_all add: s1_def s0)
  have o1: "trace s1 = trace s \<and> nextTimeout s1 = nextTimeout s
          \<and> timers s1 = filter (\<lambda>x. fst x \<noteq> t) (timers s) \<and> options s1 = options s"
    by (cases "findIndex (\<lambda>q. timeout q = t) (commandQueue s)") (simp_all add: s1_def s0)
  have pu: "pendingIds u = (case currentCommand s of None \<Rightarrow> []
              | Some c \<Rightarrow> if timeout c = t then [] else [timeout c]) @ remove1 t (map timeout (commandQueue s))"
    using q1 c1 by (cases "currentCommand s") (auto simp: pendingIds_def u_def B_def)
  have ou: "trace u = trace s \<and> nextTimeout u = nextTimeout s
          \<and> timers u = filter (\<lambda>x. fst x \<noteq> t) (timers s) \<and> options u = options s"
    using o1 by (simp add: u_def)
  have dist: "distinct (pendingIds s)" using i by (simp add: queue_inv_def)
  have su: "set (pendingIds u) = set (pendingIds s) - {t}"
    using dist unfolding pu by (cases "currentCommand s") (auto simp: pendingIds_def)
  have du: "distinct (pendingIds u)"
    using dist unfolding pu by (cases "currentCommand s") (auto simp: pendingIds_def)
  have iu: "queue_inv u"
    unfolding queue_inv_def using i su du ou by (auto simp: queue_inv_def)
  have tu: "timer_inv u"
    unfolding timer_inv_def using ti su ou by (auto simp: timer_inv_def)
  have "timer_inv v" using iu tu by (simp add: v_def processQueue_timer)
  then have "timer_inv (emit (Reject t ''Command timeout'') v)"
    by (simp add: timer_inv_def pendingIds_def emit_def)
  then show ?thesis by (simp add: tf)
qed

lemma step_timer: "queue_inv s \<Longrightarrow> timer_inv s \<Longrightarrow> timer_inv (step e s)"
proof (cases e)
  case (CallEnqueue b)
  assume "queue_inv s" "timer_inv s" then show ?thesis by (simp add: CallEnqueue enqueue_timer)
next
  case (CallConnect sock)
  assume "timer_inv s" then show ?thesis
    by (simp add: CallConnect connect_def emit_def timer_inv_def pendingIds_def)
next
  case CallDisconnect
  show ?thesis by (simp add: CallDisconnect timer_idle disconnect_fields)
next
  case SocketConnect
  assume "timer_inv s" then show ?thesis
    by (simp add: SocketConnect onSocketConnect_def startHeartbeat_def stopHeartbeat_def
        emit_def timer_inv_def pendingIds_def)
next
  case (SocketData d)
  assume "queue_inv s" "timer_inv s" then show ?thesis by (simp add: SocketData onData_timer)
next
  case (SocketError err)
  assume "timer_inv s" then show ?thesis
    by (simp add: SocketError onSocketError_def emit_def timer_inv_def pendingIds_def)
next
  case SocketClose
  show ?thesis by (simp add: SocketClose timer_idle onSocketClose_fields)
next
  case (TimeoutFired t)
  assume "queue_inv s" "timer_inv s" then show ?thesis by (simp add: TimeoutFired timeoutFired_timer)
next
  case KickFired
  assume i: "queue_inv s" and t: "timer_inv s"
  have "queue_inv (s\<lparr>kicks := kicks s - 1\<rparr>) = queue_inv s" by (rule inv_fields) simp_all
  moreover have "timer_inv (s\<lparr>kicks := kicks s - 1\<rparr>) = timer_inv s" by (rule timer_fields) simp_all
  ultimately show ?thesis using i t by (simp add: KickFired processQueue_timer)
next
  case HeartbeatFired
  assume "queue_inv s" "timer_inv s" then show ?thesis
    by (simp add: HeartbeatFired heartbeatFired_def query_def enqueue_timer)
next
  case (ReconnectFired sock)
  assume "timer_inv s" then show ?thesis
    by (simp add: ReconnectFired reconnectFired_def connect_def emit_def timer_inv_def pendingIds_def)
qed

lemma run_timer: "queue_inv s \<Longrightarrow> timer_inv s \<Longrightarrow> timer_inv (run es s)"
  by (induction es arbitrary: s) (simp_all add: step_inv step_timer)

lemma reachable_timer_inv: "timer_inv (run es (constructor h p rd mrd hb ct))"
proof (rule run_timer)
  show "queue_inv (constructor h p rd mrd hb ct)" by (rule inv_constructor)
  show "timer_inv (constructor h p rd mrd hb ct)" by (rule timer_idle) (simp_all add: constructor_def)
qed

section \<open>A command that times out\<close>

lemma quiet_step:
  assumes c: "currentCommand s = Some c" and q: "quiet (timeout c) e"
  shows "currentCommand (step e s) = Some c"
proof (cases e)
  case (CallEnqueue b)
  then show ?thesis using c by (simp add: enqueue_busy)
next
  case (CallConnect sock)
  then show ?thesis using c by (simp add: connect_def emit_def)
next
  case CallDisconnect
  then show ?thesis using q by simp
next
  case SocketConnect
  then show ?thesis using c
    by (simp add: onSocketConnect_def startHeartbeat_def stopHeartbeat_def emit_def)
next
  case (SocketData d)
  then show ?thesis using q by simp
next
  case (SocketError err)
  then show ?thesis using c by (simp add: onSocketError_def emit_def)
next
  case SocketClose
  then show ?thesis using q by simp
next
  case (TimeoutFired t)
  with q have ne: "t \<noteq> timeout c" by simp
  have "map_option timeout (currentCommand (clearTimeout t s)) \<noteq> Some t"
    using c ne by (simp add: clearTimeout_def)
  with timeoutFired_cases[of "clearTimeout t s" t]
  have "currentCommand (timeoutFired t (clearTimeout t s)) = currentCommand (clearTimeout t s)"
    by blast
  then have "currentCommand (timeoutFired t (clearTimeout t s)) = Some c"
    using c by (simp add: clearTimeout_def)
  then show ?thesis using TimeoutFired c by simp
next
  case KickFired
  have "processQueue (s\<lparr>kicks := kicks s - 1\<rparr>) = s\<lparr>kicks := kicks s - 1\<rparr>"
    using c by (intro processQueue_busy[where c = c]) simp
  then show ?thesis using KickFired c by simp
next
  case HeartbeatFired
  then show ?thesis using c by (simp add: heartbeatFired_def query_def enqueue_busy)
next
  case (ReconnectFired sock)
  then show ?thesis using c by (simp add: reconnectFired_def connect_def emit_def)
qed

lemma quiet_run:
  "currentCommand s = Some c \<Longrightarrow> \<forall>e \<in> set es. quiet (timeout c) e
   \<Longrightarrow> currentCommand (run es s) = Some c"
  by (induction es arbitrary: s) (simp_all add: quiet_step)

lemma enqueue_idle:
  assumes "currentCommand s = None" and "commandQueue s = []" and "connected s"
    and "socket s = Some sock" and "fst (socket_write sock b) = None"
  shows "enqueue b s
           = s\<lparr>nextTimeout := nextTimeout s + 1,
                timers := timers s @ [(nextTimeout s, commandTimeout (options s))],
                commandQueue := [],
                currentCommand := Some \<lparr>buffer = b, timeout = nextTimeout s\<rparr>,
                socket := Some (snd (socket_write sock b)),
                trace := trace s @ [Write b]\<rparr>"
proof -
  let ?q = "\<lparr>buffer = b, timeout = nextTimeout s\<rparr>"
  let ?s1 = "s\<lparr>nextTimeout := nextTimeout s + 1,
              timers := timers s @ [(nextTimeout s, commandTimeout (options s))],
              commandQueue := commandQueue s @ [?q]\<rparr>"
  have "processQueue ?s1 = emit (Write (buffer ?q)) (promoted ?s1 ?q [] (snd (socket_write sock (buffer ?q))))"
    by (rule processQueue_promote[where sock = sock]) (simp_all add: assms)
  then show ?thesis by (simp add: enqueue_def Let_def emit_def promoted_def assms(2))
qed

text \<open>
  C3. Take a state in which the invariants hold, as they do in every state a connection
  can reach, and enqueue a command there. Its timer is armed with the delay
  \<open>commandTimeout\<close> (5000 ms in every state of a connection constructed without that
  option) and stays armed with it as long as the command is pending, in the queue or in
  flight. If the connection is idle and connected and the socket takes the write, the
  command is in flight at once, and it stays in flight as long as no data arrives, the
  connection is neither closed nor disconnected, and its timer has not fired. In every
  later state in which the command is in flight (no frame has arrived for it), the firing
  of its timer rejects it with "Command timeout", as the last effect of the handler. From
  then on, whatever happens, the command stays settled exactly once and is never resolved.
  If the queue was empty nothing is in flight afterwards; and a frame that arrives while
  nothing is in flight is emitted as a \<open>'status'\<close> event and settles no command.
\<close>

theorem command_timeout:
  assumes "queue_inv s" and "timer_inv s"
  shows "(currentCommand s = None \<and> commandQueue s = [] \<and> connected s \<and> socket s = Some sock
          \<and> fst (socket_write sock b) = None
          \<longrightarrow> currentCommand (step (CallEnqueue b) s) = Some \<lparr>buffer = b, timeout = nextTimeout s\<rparr>
              \<and> commandQueue (step (CallEnqueue b) s) = []
              \<and> (\<forall>es. (\<forall>e \<in> set es. quiet (nextTimeout s) e)
                    \<longrightarrow> currentCommand (run es (step (CallEnqueue b) s))
                          = Some \<lparr>buffer = b, timeout = nextTimeout s\<rparr>))
       \<and> (\<forall>es. nextTimeout s \<in> set (pendingIds (run es (step (CallEnqueue b) s)))
             \<longrightarrow> (nextTimeout s, commandTimeout (options s))
                   \<in> set (timers (run es (step (CallEnqueue b) s))))
       \<and> (\<forall>es. currentCommand (run es (step (CallEnqueue b) s))
                   = Some \<lparr>buffer = b, timeout = nextTimeout s\<rparr>
             \<longrightarrow> (\<exists>ws. trace (step (TimeoutFired (nextTimeout s)) (run es (step (CallEnqueue b) s)))
                      = trace (run es (step (CallEnqueue b) s)) @ ws
                        @ [Reject (nextTimeout s) ''Command timeout''])
               \<and> (\<forall>es'. count_list (settles (trace (run es'
                             (step (TimeoutFired (nextTimeout s)) (run es (step (CallEnqueue b) s))))))
                           (nextTimeout s) = 1
                      \<and> (\<forall>r. Resolve (nextTimeout s) r \<notin> set (trace (run es'
                             (step (TimeoutFired (nextTimeout s)) (run es (step (CallEnqueue b) s)))))))
               \<and> (commandQueue (run es (step (CallEnqueue b) s)) = []
                  \<longrightarrow> currentCommand
                        (step (TimeoutFired (nextTimeout s)) (run es (step (CallEnqueue b) s))) = None))
       \<and> (\<forall>s' d r n. currentCommand s' = None \<and> parseResponse (receiveBuffer s' @ d) = Some (r, n)
             \<longrightarrow> (\<exists>rest. trace (step (SocketData d) s') = trace s' @ Emit (Status r) # rest)
               \<and> settles (trace (step (SocketData d) s')) = settles (trace s'))
       \<and> (\<forall>h p rd mrd hb es0.
             commandTimeout (options (run es0 (constructor h p rd mrd hb None))) = 5000)"
proof -
  let ?t = "nextTimeout s"
  let ?c = "\<lparr>buffer = b, timeout = ?t\<rparr>"
  let ?s1 = "step (CallEnqueue b) s"
  have i1: "queue_inv ?s1" using assms(1) by (rule step_inv)
  have t1: "timer_inv ?s1" using assms(1,2) by (rule step_timer)
  have tc: "timeout ?c = ?t" by simp
  have A: "currentCommand ?s1 = Some ?c \<and> commandQueue ?s1 = []
           \<and> (\<forall>es. (\<forall>e \<in> set es. quiet ?t e) \<longrightarrow> currentCommand (run es ?s1) = Some ?c)"
    if idle: "currentCommand s = None \<and> commandQueue s = [] \<and> connected s \<and> socket s = Some sock
          \<and> fst (socket_write sock b) = None"
  proof -
    have e1: "enqueue b s = s\<lparr>nextTimeout := nextTimeout s + 1,
                timers := timers s @ [(nextTimeout s, commandTimeout (options s))],
                commandQueue := [],
                currentCommand := Some ?c,
                socket := Some (snd (socket_write sock b)),
                trace := trace s @ [Write b]\<rparr>"
      using idle by (intro enqueue_idle) simp_all
    have a: "currentCommand ?s1 = Some ?c" "commandQueue ?s1 = []" by (simp_all add: e1)
    have "currentCommand (run es ?s1) = Some ?c" if "\<forall>e \<in> set es. quiet ?t e" for es
      using quiet_run[OF a(1), of es] that by (simp only: tc)
    with a show ?thesis by blast
  qed
  have B: "(?t, commandTimeout (options s)) \<in> set (timers (run es ?s1))"
    if pend: "?t \<in> set (pendingIds (run es ?s1))" for es
  proof -
    have "timer_inv (run es ?s1)" using i1 t1 by (rule run_timer)
    with pend have "(?t, commandTimeout (options (run es ?s1))) \<in> set (timers (run es ?s1))"
      unfolding timer_inv_def by blast
    moreover have "options (run es ?s1) = options s" by (simp only: run_options step_options)
    ultimately show ?thesis by simp
  qed
  have C: "(\<exists>ws. trace (step (TimeoutFired ?t) (run es ?s1))
                      = trace (run es ?s1) @ ws @ [Reject ?t ''Command timeout''])
               \<and> (\<forall>es'. count_list (settles (trace (run es' (step (TimeoutFired ?t) (run es ?s1))))) ?t = 1
                      \<and> (\<forall>r. Resolve ?t r \<notin> set (trace (run es' (step (TimeoutFired ?t) (run es ?s1))))))
               \<and> (commandQueue (run es ?s1) = []
                  \<longrightarrow> currentCommand (step (TimeoutFired ?t) (run es ?s1)) = None)"
    if cur: "currentCommand (run es ?s1) = Some ?c" for es
  proof -
    let ?sr = "run es ?s1"
    let ?s2 = "step (TimeoutFired ?t) ?sr"
    have ir: "queue_inv ?sr" using i1 by (rule run_inv)
    have "?t \<in> set (pendingIds ?sr)" using cur by (simp add: pendingIds_def)
    then have "(?t, commandTimeout (options s)) \<in> set (timers ?sr)" by (rule B)
    then have "fst (?t, commandTimeout (options s)) \<in> fst ` set (timers ?sr)" by (rule imageI)
    then have f: "timeout ?c \<in> fst ` set (timers ?sr)" by simp
    note ts = timeout_step[OF cur f, unfolded tc]
    from ts(1) obtain ws where ws: "trace ?s2 = trace ?sr @ ws @ [Reject ?t ''Command timeout'']"
      by blast
    then have m: "Reject ?t ''Command timeout'' \<in> set (trace ?s2)" by simp
    have i2: "queue_inv ?s2" using ir by (rule step_inv)
    have "\<forall>es'. count_list (settles (trace (run es' ?s2))) ?t = 1
              \<and> (\<forall>r. Resolve ?t r \<notin> set (trace (run es' ?s2)))"
      using settled_for_ever[OF i2 m] by blast
    with ts show ?thesis by blast
  qed
  have D: "(\<exists>rest. trace (step (SocketData d) s') = trace s' @ Emit (Status r) # rest)
               \<and> settles (trace (step (SocketData d) s')) = settles (trace s')"
    if "currentCommand s' = None \<and> parseResponse (receiveBuffer s' @ d) = Some (r, n)" for s' d r n
    using onData_idle[of s' d r n] that by simp
  have E: "commandTimeout (options (run es0 (constructor h p rd mrd hb None))) = 5000"
    for h p rd mrd hb es0
    by (simp add: run_options constructor_def)
  show ?thesis
  proof (intro conjI)
    show "currentCommand s = None \<and> commandQueue s = [] \<and> connected s \<and> socket s = Some sock
          \<and> fst (socket_write sock b) = None
          \<longrightarrow> currentCommand ?s1 = Some ?c \<and> commandQueue ?s1 = []
              \<and> (\<forall>es. (\<forall>e \<in> set es. quiet ?t e) \<longrightarrow> currentCommand (run es ?s1) = Some ?c)"
      using A by blast
    show "\<forall>es. ?t \<in> set (pendingIds (run es ?s1))
             \<longrightarrow> (?t, commandTimeout (options s)) \<in> set (timers (run es ?s1))"
      using B by blast
    show "\<forall>es. currentCommand (run es ?s1) = Some ?c
             \<longrightarrow> (\<exists>ws. trace (step (TimeoutFired ?t) (run es ?s1))
                      = trace (run es ?s1) @ ws @ [Reject ?t ''Command timeout''])
               \<and> (\<forall>es'. count_list (settles (trace (run es' (step (TimeoutFired ?t) (run es ?s1))))) ?t = 1
                      \<and> (\<forall>r. Resolve ?t r \<notin> set (trace (run es' (step (TimeoutFired ?t) (run es ?s1))))))
               \<and> (commandQueue (run es ?s1) = []
                  \<longrightarrow> currentCommand (step (TimeoutFired ?t) (run es ?s1)) = None)"
      using C by blast
    show "\<forall>s' d r n. currentCommand s' = None \<and> parseResponse (receiveBuffer s' @ d) = Some (r, n)
             \<longrightarrow> (\<exists>rest. trace (step (SocketData d) s') = trace s' @ Emit (Status r) # rest)
               \<and> settles (trace (step (SocketData d) s')) = settles (trace s')"
      using D by blast
    show "\<forall>h p rd mrd hb es0.
             commandTimeout (options (run es0 (constructor h p rd mrd hb None))) = 5000"
      using E by blast
  qed
qed

theorem command_timeout_witness:
  "queue_inv (run [CallConnect (Socket []), SocketConnect] (constructor [] 0 None None None None))
   \<and> timer_inv (run [CallConnect (Socket []), SocketConnect] (constructor [] 0 None None None None))
   \<and> currentCommand (run [CallConnect (Socket []), SocketConnect]
        (constructor [] 0 None None None None)) = None
   \<and> commandQueue (run [CallConnect (Socket []), SocketConnect]
        (constructor [] 0 None None None None)) = []
   \<and> connected (run [CallConnect (Socket []), SocketConnect] (constructor [] 0 None None None None))
   \<and> socket (run [CallConnect (Socket []), SocketConnect]
        (constructor [] 0 None None None None)) = Some (Socket [])
   \<and> fst (socket_write (Socket []) (buildQuery Zone_MASTER Cmd_VOLUME)) = None
   \<and> nextTimeout (run [CallConnect (Socket []), SocketConnect]
        (constructor [] 0 None None None None)) = 0
   \<and> quiet 0 KickFired
   \<and> currentCommand (run [KickFired] (step (CallEnqueue (buildQuery Zone_MASTER Cmd_VOLUME))
        (run [CallConnect (Socket []), SocketConnect] (constructor [] 0 None None None None))))
       = Some \<lparr>buffer = buildQuery Zone_MASTER Cmd_VOLUME, timeout = 0\<rparr>
   \<and> 0 \<in> set (pendingIds (run [KickFired] (step (CallEnqueue (buildQuery Zone_MASTER Cmd_VOLUME))
        (run [CallConnect (Socket []), SocketConnect] (constructor [] 0 None None None None)))))
   \<and> (0, 5000) \<in> set (timers (run [KickFired] (step (CallEnqueue (buildQuery Zone_MASTER Cmd_VOLUME))
        (run [CallConnect (Socket []), SocketConnect] (constructor [] 0 None None None None)))))
   \<and> commandQueue (run [KickFired] (step (CallEnqueue (buildQuery Zone_MASTER Cmd_VOLUME))
        (run [CallConnect (Socket []), SocketConnect] (constructor [] 0 None None None None)))) = []
   \<and> last (trace (step (TimeoutFired 0)
        (run [KickFired] (step (CallEnqueue (buildQuery Zone_MASTER Cmd_VOLUME))
        (run [CallConnect (Socket []), SocketConnect] (constructor [] 0 None None None None))))))
       = Reject 0 ''Command timeout''
   \<and> currentCommand (step (TimeoutFired 0)
        (run [KickFired] (step (CallEnqueue (buildQuery Zone_MASTER Cmd_VOLUME))
        (run [CallConnect (Socket []), SocketConnect] (constructor [] 0 None None None None)))))
       = None
   \<and> parseResponse (receiveBuffer (step (TimeoutFired 0)
        (run [KickFired] (step (CallEnqueue (buildQuery Zone_MASTER Cmd_VOLUME))
        (run [CallConnect (Socket []), SocketConnect] (constructor [] 0 None None None None)))))
          @ [0x21, 0x01, 0x0D, 0x00, 0x01, 0x32, 0x0D])
       = Some (\<lparr>zone = 1, command = 0x0D, answer = 0, data = [0x32]\<rparr>, 7)
   \<and> (\<exists>rest. trace (step (SocketData [0x21, 0x01, 0x0D, 0x00, 0x01, 0x32, 0x0D])
        (step (TimeoutFired 0)
        (run [KickFired] (step (CallEnqueue (buildQuery Zone_MASTER Cmd_VOLUME))
        (run [CallConnect (Socket []), SocketConnect] (constructor [] 0 None None None None))))))
      = trace (step (TimeoutFired 0)
        (run [KickFired] (step (CallEnqueue (buildQuery Zone_MASTER Cmd_VOLUME))
        (run [CallConnect (Socket []), SocketConnect] (constructor [] 0 None None None None)))))
        @ Emit (Status \<lparr>zone = 1, command = 0x0D, answer = 0, data = [0x32]\<rparr>) # rest)
   \<and> count_list (settles (trace (run [SocketData [0x21, 0x01, 0x0D, 0x00, 0x01, 0x32, 0x0D]]
        (step (TimeoutFired 0)
        (run [KickFired] (step (CallEnqueue (buildQuery Zone_MASTER Cmd_VOLUME))
        (run [CallConnect (Socket []), SocketConnect] (constructor [] 0 None None None None)))))))) 0
       = 1
   \<and> (\<forall>r. Resolve 0 r \<notin> set (trace (run [SocketData [0x21, 0x01, 0x0D, 0x00, 0x01, 0x32, 0x0D]]
        (step (TimeoutFired 0)
        (run [KickFired] (step (CallEnqueue (buildQuery Zone_MASTER Cmd_VOLUME))
        (run [CallConnect (Socket []), SocketConnect] (constructor [] 0 None None None None))))))))"
proof -
  define sA where "sA = run [CallConnect (Socket []), SocketConnect] (constructor [] 0 None None None None)"
  define b where "b = buildQuery Zone_MASTER Cmd_VOLUME"
  define d :: "byte list" where "d = [0x21, 0x01, 0x0D, 0x00, 0x01, 0x32, 0x0D]"
  define s1 where "s1 = step (CallEnqueue b) sA"
  define sr where "sr = run [KickFired] s1"
  define s2 where "s2 = step (TimeoutFired 0) sr"
  let ?r = "\<lparr>zone = 1, command = 0x0D, answer = 0, data = [0x32]\<rparr>"
  have i: "queue_inv sA" unfolding sA_def by (rule reachable_queue_inv)
  have t: "timer_inv sA" unfolding sA_def by (rule reachable_timer_inv)
  have fA: "currentCommand sA = None" "commandQueue sA = []" "connected sA"
    "socket sA = Some (Socket [])"
    and gA: "nextTimeout sA = 0" "kicks sA = 0" "receiveBuffer sA = []" "timers sA = []"
    "commandTimeout (options sA) = 5000"
    by (simp_all add: sA_def constructor_def connect_def emit_def onSocketConnect_def
        startHeartbeat_def stopHeartbeat_def)
  have w: "fst (socket_write (Socket []) b) = None" by simp
  note T = command_timeout[OF i t, of "Socket []" b, unfolded gA(1,5), folded s1_def]
  note T1 = T[THEN conjunct1] and T2 = T[THEN conjunct2, THEN conjunct1]
    and T3 = T[THEN conjunct2, THEN conjunct2, THEN conjunct1]
    and T4 = T[THEN conjunct2, THEN conjunct2, THEN conjunct2, THEN conjunct1]
  from T1 fA w have V: "currentCommand s1 = Some \<lparr>buffer = b, timeout = 0\<rparr> \<and> commandQueue s1 = []
      \<and> (\<forall>es. (\<forall>e \<in> set es. quiet 0 e)
            \<longrightarrow> currentCommand (run es s1) = Some \<lparr>buffer = b, timeout = 0\<rparr>)"
    by blast
  have q: "quiet 0 KickFired" by simp
  then have "\<forall>e \<in> set [KickFired]. quiet 0 e" by simp
  with V have cur: "currentCommand sr = Some \<lparr>buffer = b, timeout = 0\<rparr>"
    unfolding sr_def by blast
  then have pend: "0 \<in> set (pendingIds sr)" by (simp add: pendingIds_def)
  have e1: "s1 = sA\<lparr>nextTimeout := nextTimeout sA + 1,
                timers := timers sA @ [(nextTimeout sA, commandTimeout (options sA))],
                commandQueue := [],
                currentCommand := Some \<lparr>buffer = b, timeout = nextTimeout sA\<rparr>,
                socket := Some (snd (socket_write (Socket []) b)),
                trace := trace sA @ [Write b]\<rparr>"
    unfolding s1_def step.simps by (rule enqueue_idle[OF fA w])
  have k: "sr = s1" by (simp add: sr_def e1 gA)
  have cq: "commandQueue sr = []" using V by (simp only: k)
  note U1 = T2[THEN spec, of "[KickFired]", folded sr_def, THEN mp, OF pend]
  note U = T3[THEN spec, of "[KickFired]", folded sr_def, THEN mp, OF cur, folded s2_def]
  note U2 = U[THEN conjunct1] and U3 = U[THEN conjunct2, THEN conjunct1]
    and U4 = U[THEN conjunct2, THEN conjunct2]
  from U2 have l: "last (trace s2) = Reject 0 ''Command timeout''" by auto
  from U4 cq have n: "currentCommand s2 = None" by blast
  have rb: "receiveBuffer s2 = []"
    by (simp add: s2_def k e1 gA fA timeoutFired_def clearTimeout_def emit_def Let_def
        processQueue_idle)
  have p: "parseResponse (receiveBuffer s2 @ d) = Some (?r, 7)"
    unfolding rb d_def by (simp add: parseResponse.simps u8_def STX_def ETX_def Let_def)
  from T4 n p have st: "\<exists>rest. trace (step (SocketData d) s2) = trace s2 @ Emit (Status ?r) # rest"
    by blast
  from U3 have c1: "count_list (settles (trace (run [SocketData d] s2))) 0 = 1"
    and nr: "\<forall>r. Resolve 0 r \<notin> set (trace (run [SocketData d] s2))" by blast+
  from i t fA w gA(1) q cur pend U1 cq l n p st c1 nr show ?thesis
    unfolding s2_def sr_def s1_def sA_def b_def d_def by (intro conjI)
qed

end
